theory Spec2Isabelle
  imports
    Complex_Main
    "HOL-Library.Word"
    "HOL-Library.AList"
    "HOL-Library.Sublist"
    "HOL-Library.Char_ord"
    "HOL-Library.List_Lexorder"
begin

section \<open>The in-memory document store (package memdocstore)\<close>

text \<open>
  A shallow embedding of \<^verbatim>\<open>memdocstore\<close>: the collection, the execution of one
  action (\<^verbatim>\<open>runAction\<close>), the two-phase \<^verbatim>\<open>update\<close>, increment addition
  (\<^verbatim>\<open>add\<close>), the revision allocator and check, the field-path navigator
  (\<^verbatim>\<open>getParentMap\<close>), the action-list executor (\<^verbatim>\<open>RunActions\<close>) and the URL
  opener (\<^verbatim>\<open>OpenCollectionURL\<close>).

  Conventions.
  \<^item> A Go function that returns \<^verbatim>\<open>(value, error)\<close> and may also panic returns a
    \<open>res\<close>: \<open>Panic\<close>, \<open>Fail e\<close> or \<open>Ok v\<close>.
  \<^item> Go maps are mutated in place. A function that may write to a map returns the map
    as it is when the function is left, also when it fails or panics.
  \<^item> \<^verbatim>\<open>int64\<close> is a 64-bit word; \<open>+\<close> wraps around as Go's does.
  \<^item> \<^verbatim>\<open>float64\<close> is a type parameter \<open>'f\<close>; its addition and the conversion
    \<^verbatim>\<open>float64(x)\<close> are parameters (\<open>float64_ops\<close>), since IEEE arithmetic is not
    formalised here.
\<close>

subsection \<open>Errors\<close>

text \<open>The error codes of package \<^verbatim>\<open>gcerr\<close>.\<close>

datatype ErrorCode =
  OK | Unknown | NotFound | AlreadyExists | InvalidArgument | Internal | Unimplemented
  | FailedPrecondition | PermissionDenied | ResourceExhausted | Canceled | DeadlineExceeded

text \<open>
  An error is either made by \<^verbatim>\<open>gcerr.Newf(code, ...)\<close> and carries its code, or it is
  any other Go error (made by \<^verbatim>\<open>fmt.Errorf\<close>, returned by \<^verbatim>\<open>ctx.Err()\<close>, by a
  callback or by the codec); the latter is identified by its message.
\<close>

datatype error = Gcerr ErrorCode | Plain string

datatype 'a res = Panic | Fail error | Ok 'a

subsection \<open>Encoded values and documents\<close>

type_synonym int64 = "64 word"

text \<open>
  The values a stored document holds: \<^verbatim>\<open>nil\<close>, \<^verbatim>\<open>int64\<close>, \<^verbatim>\<open>float64\<close>,
  \<^verbatim>\<open>string\<close>, \<^verbatim>\<open>bool\<close>, \<^verbatim>\<open>[]byte\<close>, \<^verbatim>\<open>time.Time\<close>,
  \<^verbatim>\<open>[]interface{}\<close> and \<^verbatim>\<open>map[string]interface{}\<close>. A map is an association
  list read with \<open>map_of\<close> and written with \<open>AList.update\<close> and \<open>AList.delete\<close>.
  Stored documents are made by the codec and by \<^verbatim>\<open>update\<close> from freshly encoded
  values, so they are trees: no map occurs twice in a document or in two documents.
\<close>

datatype 'f val =
  VNil
  | VInt int64
  | VFloat 'f
  | VString string
  | VBool bool
  | VBytes "8 word list"
  | VTime int
  | VList "'f val list"
  | VMap "(string \<times> 'f val) list"

type_synonym 'f gomap = "(string \<times> 'f val) list"

text \<open>
  A Go value of type \<^verbatim>\<open>interface{}\<close> handed in by the caller: a value of the encoded
  vocabulary (\<open>Enc VNil\<close> is the nil interface), a \<^verbatim>\<open>driver.IncOp{Amount}\<close>, or any
  other Go value, which the engine never looks into.
\<close>

datatype 'f raw = Enc "'f val" | IncOp "'f raw" | Opaque string

text \<open>The Go expression \<^verbatim>\<open>m[k]\<close>: the nil interface when \<open>k\<close> is not in \<open>m\<close>.\<close>

definition mapIndex :: "'f gomap \<Rightarrow> string \<Rightarrow> 'f val" where
  "mapIndex m k = (case map_of m k of None \<Rightarrow> VNil | Some v \<Rightarrow> v)"

record 'f float64_ops =
  fadd :: "'f \<Rightarrow> 'f \<Rightarrow> 'f"
  fconv :: "int64 \<Rightarrow> 'f"

subsection \<open>Increment addition: \<^verbatim>\<open>add\<close>\<close>

fun add :: "'f float64_ops \<Rightarrow> 'f val \<Rightarrow> 'f val \<Rightarrow> 'f val res" where
  "add F VNil y = Ok y"
| "add F (VInt x) (VInt y) = Ok (VInt (x + y))"
| "add F (VInt x) (VFloat y) = Ok (VFloat (fadd F (fconv F x) y))"
| "add F (VInt x) _ = Fail (Gcerr Internal)"
| "add F (VFloat x) (VInt y) = Ok (VFloat (fadd F x (fconv F y)))"
| "add F (VFloat x) (VFloat y) = Ok (VFloat (fadd F x y))"
| "add F (VFloat x) _ = Fail (Gcerr Internal)"
| "add F _ _ = Fail (Gcerr InvalidArgument)"

subsection \<open>The field-path navigator: \<^verbatim>\<open>getParentMap\<close>\<close>

text \<open>
  A reference to a map inside a document is the path that leads to it from the
  document's root (documents are trees). \<open>deref\<close> reads the map a reference denotes.
\<close>

type_synonym mapref = "string list"

fun deref :: "'f gomap \<Rightarrow> mapref \<Rightarrow> 'f gomap option" where
  "deref m [] = Some m"
| "deref m (k # ks) = (case mapIndex m k of VMap sub \<Rightarrow> deref sub ks | _ \<Rightarrow> None)"

text \<open>
  The loop of \<^verbatim>\<open>getParentMap\<close> over \<^verbatim>\<open>fp[:len(fp)-1]\<close>. The result is
  \<open>Ok False\<close> when a nil was met and \<open>create\<close> is false (Go returns a nil map and no
  error), \<open>Ok True\<close> when the loop ran to its end, and an error when a component is
  neither nil nor a map. The second component is the map after the loop: with
  \<open>create\<close>, the maps inserted on the way stay, also when the loop fails later.
\<close>

fun walk :: "'f gomap \<Rightarrow> string list \<Rightarrow> bool \<Rightarrow> bool res \<times> 'f gomap" where
  "walk m [] create = (Ok True, m)"
| "walk m (k # ks) create =
     (if mapIndex m k = VNil \<and> \<not> create then (Ok False, m)
      else
        let m1 = (if mapIndex m k = VNil then AList.update k (VMap []) m else m) in
        (case mapIndex m1 k of
           VMap sub \<Rightarrow>
             (case walk sub ks create of (r, sub') \<Rightarrow> (r, AList.update k (VMap sub') m1))
         | _ \<Rightarrow> (Fail (Gcerr InvalidArgument), m1)))"

text \<open>
  \<^verbatim>\<open>getParentMap(m, fp, create)\<close>. The slice expression \<^verbatim>\<open>fp[:len(fp)-1]\<close> panics on
  an empty path. \<open>Ok None\<close> is Go's \<^verbatim>\<open>(nil, nil)\<close>; \<open>Ok (Some p)\<close> is the reference
  to the parent map.
\<close>

definition getParentMap ::
  "'f gomap \<Rightarrow> string list \<Rightarrow> bool \<Rightarrow> mapref option res \<times> 'f gomap" where
  "getParentMap m fp create =
     (if fp = [] then (Panic, m)
      else
        (case walk m (butlast fp) create of
           (Ok True, m') \<Rightarrow> (Ok (Some (butlast fp)), m')
         | (Ok False, m') \<Rightarrow> (Ok None, m')
         | (Fail e, m') \<Rightarrow> (Fail e, m')
         | (Panic, m') \<Rightarrow> (Panic, m')))"

subsection \<open>Collaborators that are not part of the engine\<close>

text \<open>
  The engine calls the codec (\<^verbatim>\<open>encodeDoc\<close>, \<^verbatim>\<open>encodeValue\<close>, \<^verbatim>\<open>decodeDoc\<close>) and the
  accessors of \<^verbatim>\<open>driver.Document\<close> (\<^verbatim>\<open>GetField\<close>, \<^verbatim>\<open>SetField\<close>). They are
  parameters: \<open>'d\<close> is the caller's document, and a function that changes the caller's
  document in place returns the changed document. \<^verbatim>\<open>decodeDoc\<close> returns its error
  (or none) and the destination document as it left it.
\<close>

record ('d, 'f) env =
  floats :: "'f float64_ops"
  GetField :: "'d \<Rightarrow> string \<Rightarrow> error + 'f raw"
  SetField :: "'d \<Rightarrow> string \<Rightarrow> 'f raw \<Rightarrow> error + 'd"
  encodeDoc :: "'d \<Rightarrow> error + 'f gomap"
  encodeValue :: "'f raw \<Rightarrow> error + 'f val"
  decodeDoc :: "'f gomap \<Rightarrow> 'd \<Rightarrow> string list list \<Rightarrow> string \<Rightarrow> error option \<times> 'd"

subsection \<open>The collection\<close>

record Options =
  RevisionField :: string
  MaxOutstandingActionRPCs :: int

text \<open>
  The struct \<^verbatim>\<open>collection\<close>. Keys are Go values of type \<^verbatim>\<open>interface{}\<close>;
  \<open>Enc VNil\<close> is the nil key. The mutex is not a field: the functions below are the
  critical sections it protects, run one at a time.
\<close>

record ('d, 'f) collection =
  keyField :: string
  keyFunc :: "('d \<Rightarrow> 'f raw) option"
  opts :: Options
  docs :: "'f raw \<rightharpoonup> 'f gomap"
  curRevision :: int64

text \<open>
  \<^verbatim>\<open>newCollection\<close>. The default name of the revision field,
  \<^verbatim>\<open>docstore.DefaultRevisionField\<close>, is a parameter.
\<close>

definition newCollection ::
  "string \<Rightarrow> string \<Rightarrow> ('d \<Rightarrow> 'f raw) option \<Rightarrow> Options option \<Rightarrow> error + ('d, 'f) collection"
  where
  "newCollection DefaultRevisionField kf kfun os =
     (if kf = [] \<and> kfun = None then Inl (Gcerr InvalidArgument)
      else
        let os1 = (case os of None \<Rightarrow> \<lparr>RevisionField = [], MaxOutstandingActionRPCs = 0\<rparr>
                   | Some x \<Rightarrow> x);
            os2 = (if RevisionField os1 = [] then os1\<lparr>RevisionField := DefaultRevisionField\<rparr>
                   else os1)
        in Inr \<lparr>keyField = kf, keyFunc = kfun, opts = os2, docs = Map.empty, curRevision = 0\<rparr>)"

subsection \<open>The revision allocator: \<^verbatim>\<open>changeRevision\<close>\<close>

definition changeRevision ::
  "('d, 'f) collection \<Rightarrow> 'f gomap \<Rightarrow> ('d, 'f) collection \<times> 'f gomap" where
  "changeRevision c doc =
     (let c' = c\<lparr>curRevision := curRevision c + 1\<rparr>
      in (c', AList.update (RevisionField (opts c')) (VInt (curRevision c')) doc))"

subsection \<open>The revision check: \<^verbatim>\<open>checkRevision\<close>\<close>

text \<open>
  \<open>current\<close> is \<open>None\<close> for Go's nil map. The type assertion
  \<^verbatim>\<open>current[c.opts.RevisionField].(int64)\<close> has no \<^verbatim>\<open>ok\<close> result, so it panics on
  a stored revision that is not an \<^verbatim>\<open>int64\<close>. \<open>Ok ()\<close> is the nil error.
\<close>

definition checkRevision ::
  "('d, 'f) env \<Rightarrow> ('d, 'f) collection \<Rightarrow> 'd \<Rightarrow> 'f gomap option \<Rightarrow> unit res" where
  "checkRevision E c arg current =
     (case current of
        None \<Rightarrow> Ok ()
      | Some cur \<Rightarrow>
          (case mapIndex cur (RevisionField (opts c)) of
             VInt curRev \<Rightarrow>
               (case GetField E arg (RevisionField (opts c)) of
                  Inl err \<Rightarrow> Ok ()
                | Inr r \<Rightarrow>
                    if r = Enc VNil then Ok ()
                    else
                      (case r of
                         Enc (VInt wantRev) \<Rightarrow>
                           if wantRev \<noteq> curRev then Fail (Gcerr FailedPrecondition) else Ok ()
                       | _ \<Rightarrow> Fail (Gcerr InvalidArgument)))
           | _ \<Rightarrow> Panic))"

subsection \<open>Update\<close>

record 'f Mod =
  FieldPath :: "string list"
  Value :: "'f raw"

text \<open>
  \<^verbatim>\<open>guaranteedMod\<close>. \<open>parentMap\<close> is \<open>None\<close> for a nil map, else the reference to
  the map holding the key to be modified.
\<close>

record 'f guaranteedMod =
  parentMap :: "mapref option"
  key :: string
  encodedValue :: "'f val"

text \<open>
  \<^verbatim>\<open>sort.Slice(mods, ...)\<close> by the first path component, as a stable sort. Reading
  \<^verbatim>\<open>FieldPath[0]\<close> of an empty path panics; \<open>update\<close> below checks for that before it
  sorts.
\<close>

definition sortMods :: "'f Mod list \<Rightarrow> 'f Mod list" where
  "sortMods mods = sort_key (\<lambda>m. hd (FieldPath m)) mods"

text \<open>\<^verbatim>\<open>gmod.parentMap[gmod.key]\<close>; reading a nil map gives nil.\<close>

definition refIndex :: "'f gomap \<Rightarrow> mapref option \<Rightarrow> string \<Rightarrow> 'f val" where
  "refIndex doc pm k =
     (case pm of
        None \<Rightarrow> VNil
      | Some p \<Rightarrow> (case deref doc p of None \<Rightarrow> VNil | Some m \<Rightarrow> mapIndex m k))"

text \<open>
  The body of the planning loop for one modification: resolve the parent map, then
  compute the encoded value (an increment is added to the current value; a nil value
  stays nil, which means delete).
\<close>

definition planValue ::
  "('d, 'f) env \<Rightarrow> 'f gomap \<Rightarrow> mapref option \<Rightarrow> string \<Rightarrow> 'f raw \<Rightarrow> 'f val res" where
  "planValue E doc pm k v =
     (case v of
        IncOp amount \<Rightarrow>
          (case encodeValue E amount of
             Inl err \<Rightarrow> Fail err
           | Inr amt \<Rightarrow> add (floats E) (refIndex doc pm k) amt)
      | Enc VNil \<Rightarrow> Ok VNil
      | _ \<Rightarrow> (case encodeValue E v of Inl err \<Rightarrow> Fail err | Inr ev \<Rightarrow> Ok ev))"

definition planOne ::
  "('d, 'f) env \<Rightarrow> 'f gomap \<Rightarrow> 'f Mod \<Rightarrow> 'f guaranteedMod res \<times> 'f gomap" where
  "planOne E doc md =
     (case getParentMap doc (FieldPath md) False of
        (Panic, doc1) \<Rightarrow> (Panic, doc1)
      | (Fail err, doc1) \<Rightarrow> (Fail err, doc1)
      | (Ok pm, doc1) \<Rightarrow>
          (case planValue E doc1 pm (last (FieldPath md)) (Value md) of
             Panic \<Rightarrow> (Panic, doc1)
           | Fail err \<Rightarrow> (Fail err, doc1)
           | Ok ev \<Rightarrow>
               (Ok \<lparr>parentMap = pm, key = last (FieldPath md), encodedValue = ev\<rparr>, doc1)))"

text \<open>The planning loop: it stops at the first modification that fails.\<close>

fun plan ::
  "('d, 'f) env \<Rightarrow> 'f gomap \<Rightarrow> 'f Mod list \<Rightarrow> 'f guaranteedMod list res \<times> 'f gomap" where
  "plan E doc [] = (Ok [], doc)"
| "plan E doc (md # mods) =
     (case planOne E doc md of
        (Panic, doc1) \<Rightarrow> (Panic, doc1)
      | (Fail err, doc1) \<Rightarrow> (Fail err, doc1)
      | (Ok g, doc1) \<Rightarrow>
          (case plan E doc1 mods of
             (Ok gs, doc2) \<Rightarrow> (Ok (g # gs), doc2)
           | (Fail err, doc2) \<Rightarrow> (Fail err, doc2)
           | (Panic, doc2) \<Rightarrow> (Panic, doc2)))"

text \<open>Apply \<open>f\<close> to the map that the reference denotes.\<close>

fun modifyAt :: "('f gomap \<Rightarrow> 'f gomap) \<Rightarrow> mapref \<Rightarrow> 'f gomap \<Rightarrow> 'f gomap" where
  "modifyAt f [] m = f m"
| "modifyAt f (k # ks) m =
     (case mapIndex m k of
        VMap sub \<Rightarrow> AList.update k (VMap (modifyAt f ks sub)) m
      | _ \<Rightarrow> m)"

text \<open>
  The commit loop. \<^verbatim>\<open>delete\<close> on a nil map does nothing; an assignment to an entry
  of a nil map panics, and the writes done before it stay.

  The parent maps were resolved before the first write. A write or delete of entry
  \<open>k\<close> of the map at \<open>p\<close> cuts every map below \<open>p @ [k]\<close> off the document: a later
  modification whose parent map is one of those writes to a map that is no longer part
  of the document. \<open>dead\<close> collects the entries written so far; such a modification
  leaves the document as it is.
\<close>

fun commit :: "'f guaranteedMod list \<Rightarrow> mapref list \<Rightarrow> 'f gomap \<Rightarrow> unit res \<times> 'f gomap" where
  "commit [] dead doc = (Ok (), doc)"
| "commit (m # ms) dead doc =
     (case parentMap m of
        None \<Rightarrow> if encodedValue m = VNil then commit ms dead doc else (Panic, doc)
      | Some p \<Rightarrow>
          commit ms ((p @ [key m]) # dead)
            (if list_ex (\<lambda>q. prefix q p) dead then doc
             else if encodedValue m = VNil then modifyAt (AList.delete (key m)) p doc
             else modifyAt (AList.update (key m) (encodedValue m)) p doc))"

text \<open>
  \<^verbatim>\<open>collection.update\<close>. The result holds the error (or panic), the document, the
  collection (for its counter) and the slice \<^verbatim>\<open>mods\<close>, which is sorted in place.
  With two or more modifications the sort reads the first component of every path.
\<close>

definition update ::
  "('d, 'f) env \<Rightarrow> ('d, 'f) collection \<Rightarrow> 'f gomap \<Rightarrow> 'f Mod list \<Rightarrow>
     unit res \<times> 'f gomap \<times> ('d, 'f) collection \<times> 'f Mod list" where
  "update E c doc mods =
     (if 2 \<le> length mods \<and> [] \<in> set (map FieldPath mods) then (Panic, doc, c, mods)
      else
        (case plan E doc (sortMods mods) of
           (Panic, doc1) \<Rightarrow> (Panic, doc1, c, sortMods mods)
         | (Fail err, doc1) \<Rightarrow> (Fail err, doc1, c, sortMods mods)
         | (Ok gmods, doc1) \<Rightarrow>
             (case commit gmods [] doc1 of
                (Ok u, doc2) \<Rightarrow>
                  (case changeRevision c doc2 of (c', doc3) \<Rightarrow> (Ok (), doc3, c', sortMods mods))
              | (Fail err, doc2) \<Rightarrow> (Fail err, doc2, c, sortMods mods)
              | (Panic, doc2) \<Rightarrow> (Panic, doc2, c, sortMods mods))))"

subsection \<open>Actions: \<^verbatim>\<open>runAction\<close>\<close>

text \<open>
  \<^verbatim>\<open>ActionKind\<close> is an integer type with six named values; \<open>OtherKind\<close> stands for
  any other integer, which reaches the \<^verbatim>\<open>default\<close> branch.
\<close>

datatype ActionKind = Create | Replace | Put | Get | Delete | Update | OtherKind int

record ('d, 'f) Action =
  Kind :: ActionKind
  Doc :: 'd
  Key :: "'f raw"
  FieldPaths :: "string list list"
  Mods :: "'f Mod list"
  Index :: int

text \<open>
  The branch \<^verbatim>\<open>case driver.Replace, driver.Put\<close>, which \<^verbatim>\<open>Create\<close> falls through to.
  The error of the last \<^verbatim>\<open>SetField\<close> is ignored.
\<close>

definition putDoc ::
  "('d, 'f) env \<Rightarrow> ('d, 'f) collection \<Rightarrow> ('d, 'f) Action \<Rightarrow> 'f gomap option \<Rightarrow>
     unit res \<times> ('d, 'f) collection \<times> ('d, 'f) Action" where
  "putDoc E c a current =
     (case checkRevision E c (Doc a) current of
        Panic \<Rightarrow> (Panic, c, a)
      | Fail err \<Rightarrow> (Fail err, c, a)
      | Ok u \<Rightarrow>
          (case encodeDoc E (Doc a) of
             Inl err \<Rightarrow> (Fail err, c, a)
           | Inr doc \<Rightarrow>
               (case changeRevision c doc of
                  (c', doc') \<Rightarrow>
                    (Ok (),
                     c'\<lparr>docs := (docs c')(Key a \<mapsto> doc')\<rparr>,
                     a\<lparr>Doc :=
                         (case SetField E (Doc a) (RevisionField (opts c'))
                                 (Enc (mapIndex doc' (RevisionField (opts c')))) of
                            Inl err \<Rightarrow> Doc a
                          | Inr d \<Rightarrow> d)\<rparr>))))"

text \<open>
  The critical section of \<^verbatim>\<open>runAction\<close>: everything after \<^verbatim>\<open>c.mu.Lock()\<close>.
  \<open>currentDoc\<close> is the lookup of \<^verbatim>\<open>current, exists\<close>: the stored document if
  the key is not nil and is in \<^verbatim>\<open>c.docs\<close>; \<^verbatim>\<open>exists\<close> is \<open>current \<noteq> None\<close>.
  \<open>uniq\<close> is the string that \<^verbatim>\<open>driver.UniqueString()\<close> returns if it is called.
  The result holds the error (or panic), the collection and the action, whose
  \<^verbatim>\<open>Key\<close>, \<^verbatim>\<open>Doc\<close> and \<^verbatim>\<open>Mods\<close> the code writes to. In the branches
  \<^verbatim>\<open>Update\<close> and \<^verbatim>\<open>Get\<close> the document exists, by the check for \<^verbatim>\<open>NotFound\<close>
  before the switch; \<^verbatim>\<open>update\<close> works on the stored map itself, so what it leaves
  is what is stored.
\<close>

definition currentDoc :: "('d, 'f) collection \<Rightarrow> ('d, 'f) Action \<Rightarrow> 'f gomap option" where
  "currentDoc c a = (if Key a \<noteq> Enc VNil then docs c (Key a) else None)"

definition runLocked ::
  "('d, 'f) env \<Rightarrow> string \<Rightarrow> ('d, 'f) collection \<Rightarrow> ('d, 'f) Action \<Rightarrow>
     unit res \<times> ('d, 'f) collection \<times> ('d, 'f) Action" where
  "runLocked E uniq c a =
     (let current = currentDoc c a in
      if current = None \<and> (Kind a = Replace \<or> Kind a = Update \<or> Kind a = Get)
      then (Fail (Gcerr NotFound), c, a)
      else
        (case Kind a of
           Create \<Rightarrow>
             if current \<noteq> None then (Fail (Gcerr AlreadyExists), c, a)
             else if Key a = Enc VNil then
               (case SetField E (Doc a) (keyField c) (Enc (VString uniq)) of
                  Inl err \<Rightarrow> (Fail (Gcerr InvalidArgument), c, a\<lparr>Key := Enc (VString uniq)\<rparr>)
                | Inr d \<Rightarrow> putDoc E c (a\<lparr>Key := Enc (VString uniq), Doc := d\<rparr>) current)
             else putDoc E c a current
         | Replace \<Rightarrow> putDoc E c a current
         | Put \<Rightarrow> putDoc E c a current
         | Delete \<Rightarrow>
             (case checkRevision E c (Doc a) current of
                Panic \<Rightarrow> (Panic, c, a)
              | Fail err \<Rightarrow> (Fail err, c, a)
              | Ok u \<Rightarrow> (Ok (), c\<lparr>docs := (docs c)(Key a := None)\<rparr>, a))
         | Update \<Rightarrow>
             (case current of
                None \<Rightarrow> (Fail (Gcerr NotFound), c, a)
              | Some cur \<Rightarrow>
                  (case checkRevision E c (Doc a) current of
                     Panic \<Rightarrow> (Panic, c, a)
                   | Fail err \<Rightarrow> (Fail err, c, a)
                   | Ok u \<Rightarrow>
                       (case update E c cur (Mods a) of
                          (Ok u', doc', c', mods') \<Rightarrow>
                            (Ok (),
                             c'\<lparr>docs := (docs c')(Key a \<mapsto> doc')\<rparr>,
                             a\<lparr>Mods := mods',
                               Doc :=
                                 (case SetField E (Doc a) (RevisionField (opts c'))
                                         (Enc (mapIndex doc' (RevisionField (opts c')))) of
                                    Inl err \<Rightarrow> Doc a
                                  | Inr d \<Rightarrow> d)\<rparr>)
                        | (Fail err, doc', c', mods') \<Rightarrow>
                            (Fail err, c'\<lparr>docs := (docs c')(Key a \<mapsto> doc')\<rparr>, a\<lparr>Mods := mods'\<rparr>)
                        | (Panic, doc', c', mods') \<Rightarrow>
                            (Panic, c'\<lparr>docs := (docs c')(Key a \<mapsto> doc')\<rparr>, a\<lparr>Mods := mods'\<rparr>))))
         | Get \<Rightarrow>
             (case current of
                None \<Rightarrow> (Fail (Gcerr NotFound), c, a)
              | Some cur \<Rightarrow>
                  (case decodeDoc E cur (Doc a) (FieldPaths a) (RevisionField (opts c)) of
                     (None, d) \<Rightarrow> (Ok (), c, a\<lparr>Doc := d\<rparr>)
                   | (Some err, d) \<Rightarrow> (Fail err, c, a\<lparr>Doc := d\<rparr>)))
         | OtherKind n \<Rightarrow> (Fail (Gcerr Internal), c, a)))"

text \<open>
  \<^verbatim>\<open>runAction\<close>. \<open>ctxErr\<close> is what \<^verbatim>\<open>ctx.Err()\<close> returns when the action starts:
  \<open>None\<close> for nil. The context is read there and nowhere else.
\<close>

definition runAction ::
  "('d, 'f) env \<Rightarrow> error option \<Rightarrow> string \<Rightarrow> ('d, 'f) collection \<Rightarrow> ('d, 'f) Action \<Rightarrow>
     unit res \<times> ('d, 'f) collection \<times> ('d, 'f) Action" where
  "runAction E ctxErr uniq c a =
     (case ctxErr of
        Some err \<Rightarrow> (Fail err, c, a)
      | None \<Rightarrow> runLocked E uniq c a)"

subsection \<open>Action lists: \<^verbatim>\<open>RunActions\<close>\<close>

text \<open>
  \<^verbatim>\<open>driver.NewActionListError\<close>: the pairs of index and error for the errors that are
  not nil.
\<close>

definition NewActionListError :: "error option list \<Rightarrow> (nat \<times> error) list" where
  "NewActionListError errs =
     concat (map (\<lambda>(i, e). case e of None \<Rightarrow> [] | Some err \<Rightarrow> [(i, err)])
                 (zip [0..<length errs] errs))"

text \<open>
  \<^verbatim>\<open>BeforeDo\<close> is a Go closure. Its effects are on the caller's state \<open>'s\<close>, which
  it takes and returns; its argument is the function \<^verbatim>\<open>asFunc\<close>.
\<close>

record ('f, 's) RunActionsOptions =
  BeforeDo :: "(('f raw \<Rightarrow> bool) \<Rightarrow> 's \<Rightarrow> error option \<times> 's) option"

text \<open>
  What the goroutines of \<^verbatim>\<open>RunActions\<close> share: the slice \<^verbatim>\<open>errs\<close>, the
  collection, and (for the statements below) the log of the calls of
  \<^verbatim>\<open>runAction\<close> made so far, each action as its call left it.
\<close>

type_synonym ('d, 'f) shared =
  "error option list \<times> ('d, 'f) collection \<times> ('d, 'f) Action list"

text \<open>
  The world around one call of \<^verbatim>\<open>RunActions\<close>, which the code does not decide:
  \<^item> \<open>GroupActions\<close>: \<^verbatim>\<open>driver.GroupActions\<close>, which is not part of the engine;
  \<^item> \<open>sched\<close>: the order in which the goroutines started for one group take the
    mutex (a permutation of the group);
  \<^item> \<open>ctxAt i\<close>: what \<^verbatim>\<open>ctx.Err()\<close> returns when the action with index \<open>i\<close> starts;
  \<^item> \<open>uniqAt i\<close>: what \<^verbatim>\<open>driver.UniqueString()\<close> returns in that action.
\<close>

record ('d, 'f) world =
  GroupActions ::
    "('d, 'f) Action list \<Rightarrow>
       ('d, 'f) Action list \<times> ('d, 'f) Action list \<times> ('d, 'f) Action list \<times> ('d, 'f) Action list"
  sched :: "('d, 'f) Action list \<Rightarrow> ('d, 'f) Action list"
  ctxAt :: "int \<Rightarrow> error option"
  uniqAt :: "int \<Rightarrow> string"

text \<open>
  The goroutines of one group, in the order in which they take the mutex. Each runs
  \<^verbatim>\<open>errs[a.Index] = c.runAction(ctx, a)\<close>; an index out of range panics, and a
  panic in a goroutine ends the program.
\<close>

fun runEach ::
  "('d, 'f) env \<Rightarrow> ('d, 'f) world \<Rightarrow> ('d, 'f) Action list \<Rightarrow> ('d, 'f) shared \<Rightarrow>
     ('d, 'f) shared res" where
  "runEach E W [] st = Ok st"
| "runEach E W (a # as) (errs, c, calls) =
     (case runAction E (ctxAt W (Index a)) (uniqAt W (Index a)) c a of
        (Panic, c', a') \<Rightarrow> Panic
      | (Fail err, c', a') \<Rightarrow>
          if 0 \<le> Index a \<and> Index a < int (length errs)
          then runEach E W as (errs[nat (Index a) := Some err], c', calls @ [a'])
          else Panic
      | (Ok u, c', a') \<Rightarrow>
          if 0 \<le> Index a \<and> Index a < int (length errs)
          then runEach E W as (errs[nat (Index a) := None], c', calls @ [a'])
          else Panic)"

text \<open>The closure \<^verbatim>\<open>run\<close>: one group, to its end (\<^verbatim>\<open>t.Wait()\<close>).\<close>

definition run ::
  "('d, 'f) env \<Rightarrow> ('d, 'f) world \<Rightarrow> ('d, 'f) Action list \<Rightarrow> ('d, 'f) shared res \<Rightarrow>
     ('d, 'f) shared res" where
  "run E W as r = (case r of Ok st \<Rightarrow> runEach E W (sched W as) st | Fail err \<Rightarrow> Fail err | Panic \<Rightarrow> Panic)"

text \<open>
  \<^verbatim>\<open>RunActions\<close>. The result holds the action-list error, the collection, the
  caller's state and the log of the calls of \<^verbatim>\<open>runAction\<close>.
\<close>

definition runGroups ::
  "('d, 'f) env \<Rightarrow> ('d, 'f) world \<Rightarrow> ('d, 'f) collection \<Rightarrow> ('d, 'f) Action list \<Rightarrow> 's \<Rightarrow>
     ((nat \<times> error) list \<times> ('d, 'f) collection \<times> 's \<times> ('d, 'f) Action list) res" where
  "runGroups E W c actions s =
     (case GroupActions W actions of
        (beforeGets, gets, writes, afterGets) \<Rightarrow>
          (case run E W afterGets (run E W writes (run E W gets (run E W beforeGets
                  (Ok (replicate (length actions) None, c, []))))) of
             Ok (errs, c', calls) \<Rightarrow> Ok (NewActionListError errs, c', s, calls)
           | Fail err \<Rightarrow> Fail err
           | Panic \<Rightarrow> Panic))"

definition RunActions ::
  "('d, 'f) env \<Rightarrow> ('d, 'f) world \<Rightarrow> ('d, 'f) collection \<Rightarrow> ('d, 'f) Action list \<Rightarrow>
     ('f, 's) RunActionsOptions \<Rightarrow> 's \<Rightarrow>
     ((nat \<times> error) list \<times> ('d, 'f) collection \<times> 's \<times> ('d, 'f) Action list) res" where
  "RunActions E W c actions ropts s =
     (case BeforeDo ropts of
        None \<Rightarrow> runGroups E W c actions s
      | Some cb \<Rightarrow>
          (case cb (\<lambda>i. False) s of
             (Some err, s') \<Rightarrow>
               Ok (NewActionListError (replicate (length actions) (Some err)), c, s', [])
           | (None, s') \<Rightarrow> runGroups E W c actions s'))"

subsection \<open>Sequences of actions\<close>

text \<open>
  Every action runs its critical section under the collection's mutex, so what a
  collection goes through is a sequence of calls of \<^verbatim>\<open>runAction\<close>. A step holds
  what \<^verbatim>\<open>ctx.Err()\<close> returns, what \<^verbatim>\<open>driver.UniqueString()\<close> returns, and the
  action. \<open>runSeq\<close> is \<open>None\<close> when a call panics.
\<close>

type_synonym ('d, 'f) step = "error option \<times> string \<times> ('d, 'f) Action"

fun runSeq ::
  "('d, 'f) env \<Rightarrow> ('d, 'f) collection \<Rightarrow> ('d, 'f) step list \<Rightarrow> ('d, 'f) collection option"
  where
  "runSeq E c [] = Some c"
| "runSeq E c ((ctxErr, uniq, a) # steps) =
     (case runAction E ctxErr uniq c a of
        (Panic, c', a') \<Rightarrow> None
      | (Fail err, c', a') \<Rightarrow> runSeq E c' steps
      | (Ok u, c', a') \<Rightarrow> runSeq E c' steps)"

text \<open>The kinds whose success writes a document.\<close>

definition isWrite :: "ActionKind \<Rightarrow> bool" where
  "isWrite k = (k = Create \<or> k = Put \<or> k = Replace \<or> k = Update)"

text \<open>The revision field of the document stored under a key (nil if there is none).\<close>

definition storedRevision :: "('d, 'f) collection \<Rightarrow> 'f raw \<Rightarrow> 'f val" where
  "storedRevision c k =
     (case docs c k of None \<Rightarrow> VNil | Some d \<Rightarrow> mapIndex d (RevisionField (opts c)))"

definition revisionAfter ::
  "('d, 'f) env \<Rightarrow> ('d, 'f) collection \<Rightarrow> ('d, 'f) step list \<Rightarrow> 'f raw \<Rightarrow> 'f val option"
  where
  "revisionAfter E c steps k =
     (case runSeq E c steps of None \<Rightarrow> None | Some c' \<Rightarrow> Some (storedRevision c' k))"

text \<open>The number of successful writes in a sequence of actions.\<close>

fun countWrites :: "('d, 'f) env \<Rightarrow> ('d, 'f) collection \<Rightarrow> ('d, 'f) step list \<Rightarrow> nat" where
  "countWrites E c [] = 0"
| "countWrites E c ((ctxErr, uniq, a) # steps) =
     (case runAction E ctxErr uniq c a of
        (Panic, c', a') \<Rightarrow> 0
      | (Fail err, c', a') \<Rightarrow> countWrites E c' steps
      | (Ok u, c', a') \<Rightarrow> (if isWrite (Kind a) then 1 else 0) + countWrites E c' steps)"

text \<open>
  Every stored document holds, in the revision field, the \<^verbatim>\<open>int64\<close> of one of the
  first \<open>n\<close> values of the counter, \<open>1\<close> to \<open>n\<close>.
\<close>

definition stampedUpTo :: "('d, 'f) collection \<Rightarrow> nat \<Rightarrow> bool" where
  "stampedUpTo c n =
     (\<forall>k d. docs c k = Some d \<longrightarrow>
        (\<exists>m. 0 < m \<and> m \<le> n \<and> mapIndex d (RevisionField (opts c)) = VInt (of_nat m)))"

section \<open>The URL opener (file urls.go)\<close>

text \<open>
  The parts of a \<^verbatim>\<open>url.URL\<close> that the opener reads: \<^verbatim>\<open>u.Host\<close>, \<^verbatim>\<open>u.Path\<close>
  and the parsed query \<^verbatim>\<open>u.Query()\<close>.
\<close>

record URL =
  Host :: string
  Path :: string
  Query :: "(string \<times> string list) list"

text \<open>
  A \<^verbatim>\<open>*docstore.Collection\<close> is a pointer: an index into the list of the collections
  made so far.
\<close>

type_synonym ptr = nat

record urlColl =
  keyName :: string
  coll :: ptr

text \<open>
  \<^verbatim>\<open>URLOpener\<close>. A nil map reads like the empty map, and the code replaces it by
  the empty map before it writes; both are \<open>Map.empty\<close>.
\<close>

record URLOpener =
  collections :: "string \<rightharpoonup> urlColl"

text \<open>
  \<^verbatim>\<open>OpenCollection(keyField, opts)\<close>: a new collection, appended to the heap.
\<close>

definition OpenCollection ::
  "string \<Rightarrow> string \<Rightarrow> Options option \<Rightarrow> ('d, 'f) collection list \<Rightarrow>
     (error + ptr) \<times> ('d, 'f) collection list" where
  "OpenCollection DefaultRevisionField kf os heap =
     (case newCollection DefaultRevisionField kf None os of
        Inl err \<Rightarrow> (Inl err, heap)
      | Inr c \<Rightarrow> (Inr (length heap), heap @ [c]))"

text \<open>The key name: \<^verbatim>\<open>u.Path\<close> without one leading slash.\<close>

definition keyNameOf :: "URL \<Rightarrow> string" where
  "keyNameOf u = (if prefix ''/'' (Path u) then tl (Path u) else Path u)"

text \<open>
  \<^verbatim>\<open>OpenCollectionURL\<close>. Its errors are made by \<^verbatim>\<open>fmt.Errorf\<close>; the messages are
  kept without the values formatted into them.
\<close>

definition OpenCollectionURL ::
  "string \<Rightarrow> URLOpener \<Rightarrow> ('d, 'f) collection list \<Rightarrow> URL \<Rightarrow>
     (error + ptr) \<times> URLOpener \<times> ('d, 'f) collection list" where
  "OpenCollectionURL DefaultRevisionField op heap u =
     (if Query u \<noteq> [] then (Inl (Plain ''invalid query parameter''), op, heap)
      else if Host u = [] then (Inl (Plain ''empty collection name''), op, heap)
      else
        let kn = keyNameOf u in
        if kn = [] \<or> CHR ''/'' \<in> set kn
        then (Inl (Plain ''invalid key name (must be non-empty and have no slashes)''), op, heap)
        else
          (case collections op (Host u) of
             None \<Rightarrow>
               (case OpenCollection DefaultRevisionField kn None heap of
                  (Inl err, heap') \<Rightarrow> (Inl err, op, heap')
                | (Inr p, heap') \<Rightarrow>
                    (Inr p,
                     op\<lparr>collections := (collections op)(Host u \<mapsto> \<lparr>keyName = kn, coll = p\<rparr>)\<rparr>,
                     heap'))
           | Some ucoll \<Rightarrow>
               if keyName ucoll \<noteq> kn
               then (Inl (Plain ''key name does not equal existing key name''), op, heap)
               else (Inr (coll ucoll), op, heap)))"

text \<open>The URLs that pass the checks made before the registry is read.\<close>

definition validURL :: "URL \<Rightarrow> bool" where
  "validURL u = (Query u = [] \<and> Host u \<noteq> [] \<and> keyNameOf u \<noteq> [] \<and> CHR ''/'' \<notin> set (keyNameOf u))"

text \<open>A sequence of calls of \<^verbatim>\<open>OpenCollectionURL\<close> on one opener.\<close>

fun openAll ::
  "string \<Rightarrow> URLOpener \<Rightarrow> ('d, 'f) collection list \<Rightarrow> URL list \<Rightarrow>
     URLOpener \<times> ('d, 'f) collection list" where
  "openAll D op heap [] = (op, heap)"
| "openAll D op heap (u # us) =
     (case OpenCollectionURL D op heap u of (r, op', heap') \<Rightarrow> openAll D op' heap' us)"

section \<open>An instance of the collaborators\<close>

text \<open>
  Modelled from the spec: the codec and the accessors of \<^verbatim>\<open>driver.Document\<close>, which
  are not among the sources, for a caller whose documents are maps of values that are
  already encoded (``the engine consumes already-encoded values''); a field that is
  missing gives an error, a write of a value that is not encoded fails, and Get copies
  every stored field into the destination. The stand-in for \<^verbatim>\<open>float64\<close> is
  \<open>real\<close>, with exact addition. The instance is used only in the closed examples.
\<close>

definition docmapEnv :: "(real gomap, real) env" where
  "docmapEnv =
     \<lparr>floats = \<lparr>fadd = (+), fconv = (\<lambda>x. real_of_int (sint x))\<rparr>,
      GetField = (\<lambda>d f. case map_of d f of None \<Rightarrow> Inl (Gcerr NotFound) | Some v \<Rightarrow> Inr (Enc v)),
      SetField =
        (\<lambda>d f v. case v of Enc x \<Rightarrow> Inr (AList.update f x d) | _ \<Rightarrow> Inl (Gcerr InvalidArgument)),
      encodeDoc = Inr,
      encodeValue = (\<lambda>v. case v of Enc x \<Rightarrow> Inr x | _ \<Rightarrow> Inl (Gcerr InvalidArgument)),
      decodeDoc = (\<lambda>m d fps rf. (None, fold (\<lambda>(k, v). AList.update k v) m d))\<rparr>"

text \<open>
  The collection that \<open>newCollection\<close> makes for the key field \<^verbatim>\<open>name\<close> and the
  revision field \<^verbatim>\<open>DocstoreRevision\<close>.
\<close>

definition coll0 :: "(real gomap, real) collection" where
  "coll0 =
     \<lparr>keyField = ''name'', keyFunc = None,
      opts = \<lparr>RevisionField = ''DocstoreRevision'', MaxOutstandingActionRPCs = 0\<rparr>,
      docs = Map.empty, curRevision = 0\<rparr>"

text \<open>An action of the given kind on a document, with the given key.\<close>

definition act :: "ActionKind \<Rightarrow> real raw \<Rightarrow> real gomap \<Rightarrow> (real gomap, real) Action" where
  "act k ky d = \<lparr>Kind = k, Doc = d, Key = ky, FieldPaths = [], Mods = [], Index = 0\<rparr>"

text \<open>
  A stored document with the key \<^verbatim>\<open>k\<close>, and the collection that holds it after one
  write.
\<close>

definition docK :: "real gomap" where
  "docK = [(''name'', VString ''k''), (''a'', VString ''A''), (''DocstoreRevision'', VInt 1)]"

definition coll1 :: "(real gomap, real) collection" where
  "coll1 = coll0\<lparr>docs := [Enc (VString ''k'') \<mapsto> docK], curRevision := 1\<rparr>"

text \<open>An Update action on the document with key \<^verbatim>\<open>k\<close>.\<close>

definition updateK :: "real Mod list \<Rightarrow> (real gomap, real) Action" where
  "updateK ms = (act Update (Enc (VString ''k'')) [(''name'', VString ''k'')])\<lparr>Mods := ms\<rparr>"

text \<open>Put actions on the key \<^verbatim>\<open>k\<close> whose documents carry a revision, or none.\<close>

definition putK :: "real val \<Rightarrow> (real gomap, real) Action" where
  "putK r =
     act Put (Enc (VString ''k'')) [(''name'', VString ''k''), (''DocstoreRevision'', r)]"

definition putK0 :: "(real gomap, real) Action" where
  "putK0 = act Put (Enc (VString ''k'')) [(''name'', VString ''k'')]"

text \<open>
  Modelled from the spec: the world of a call of \<^verbatim>\<open>RunActions\<close> on a list of writes:
  \<^verbatim>\<open>driver.GroupActions\<close>, which is not among the sources, puts them into the group
  of writes; the goroutines take the mutex in the order of the list; the context is
  never done.
\<close>

definition world0 :: "(real gomap, real) world" where
  "world0 =
     \<lparr>GroupActions = (\<lambda>as. ([], [], as, [])), sched = (\<lambda>as. as),
      ctxAt = (\<lambda>i. None), uniqAt = (\<lambda>i. ''u'')\<rparr>"

text \<open>
  Two \<^verbatim>\<open>BeforeDo\<close> callbacks whose state counts their calls: the first returns an
  error unless \<^verbatim>\<open>asFunc(nil)\<close> is true, the second returns an error if it is.
\<close>

definition countingStop :: "(real raw \<Rightarrow> bool) \<Rightarrow> nat \<Rightarrow> error option \<times> nat" where
  "countingStop asFunc n = (if asFunc (Enc VNil) then None else Some (Plain ''stop''), Suc n)"

definition countingGo :: "(real raw \<Rightarrow> bool) \<Rightarrow> nat \<Rightarrow> error option \<times> nat" where
  "countingGo asFunc n = (if asFunc (Enc VNil) then Some (Plain ''as returned true'') else None, Suc n)"

text \<open>An opener that has opened nothing, and three URLs.\<close>

definition opener0 :: URLOpener where
  "opener0 = \<lparr>collections = Map.empty\<rparr>"

definition heap0 :: "(real gomap, real) collection list" where
  "heap0 = []"

definition url :: "string \<Rightarrow> string \<Rightarrow> URL" where
  "url h p = \<lparr>Host = h, Path = p, Query = []\<rparr>"

text \<open>
  The Put of the document \<^verbatim>\<open>{name: "k"}\<close>, which carries no revision, \<open>n\<close> times,
  and the collection that \<open>n\<close> such Puts make of the new collection \<open>coll0\<close>.
\<close>

definition repeatPut :: "nat \<Rightarrow> (real gomap, real) step list" where
  "repeatPut n = replicate n (None, [], putK0)"

definition collAfterPuts :: "nat \<Rightarrow> (real gomap, real) collection" where
  "collAfterPuts n =
     coll0\<lparr>docs :=
             (if n = 0 then Map.empty
              else [Enc (VString ''k'') \<mapsto>
                      [(''name'', VString ''k''), (''DocstoreRevision'', VInt (of_nat n))]]),
           curRevision := of_nat n\<rparr>"

section \<open>Properties\<close>

text \<open>The definitions that the closed examples unfold.\<close>

lemmas eval_defs =
  update_def sortMods_def planOne_def getParentMap_def mapIndex_def planValue_def
  docmapEnv_def refIndex_def changeRevision_def coll0_def coll1_def docK_def updateK_def act_def
  runAction_def runLocked_def currentDoc_def checkRevision_def putDoc_def putK_def putK0_def

subsection \<open>Planning does not write\<close>

lemma mapIndex_VMap_map_of: "mapIndex m k = VMap sub \<Longrightarrow> map_of m k = Some (VMap sub)"
  by (auto simp: mapIndex_def split: option.splits)

lemma walk_no_create: "walk m ks False = (r, m') \<Longrightarrow> m' = m"
proof (induction ks arbitrary: m r m')
  case Nil
  then show ?case by simp
next
  case (Cons k ks)
  show ?case
  proof (cases "mapIndex m k")
    case (VMap sub)
    obtain r1 s1 where w: "walk sub ks False = (r1, s1)" by (cases "walk sub ks False")
    with Cons.IH have "s1 = sub" by blast
    with Cons.prems VMap w show ?thesis
      by (simp add: AList.update_triv mapIndex_VMap_map_of)
  qed (use Cons.prems in \<open>auto\<close>)
qed

lemma walk_no_panic: "fst (walk m ks create) \<noteq> Panic"
proof (induction ks arbitrary: m)
  case Nil
  then show ?case by simp
next
  case (Cons k ks)
  show ?case
  proof (cases "mapIndex m k = VNil \<and> \<not> create")
    case True
    then show ?thesis by simp
  next
    case False
    define m1 where "m1 = (if mapIndex m k = VNil then AList.update k (VMap []) m else m)"
    show ?thesis
    proof (cases "mapIndex m1 k")
      case (VMap sub)
      with Cons.IH [of sub] False show ?thesis
        by (auto simp: m1_def [symmetric] Let_def split: prod.splits)
    qed (use False in \<open>simp_all add: m1_def [symmetric] Let_def\<close>)
  qed
qed

lemma getParentMap_no_create: "getParentMap m fp False = (r, m') \<Longrightarrow> m' = m"
  by (auto simp: getParentMap_def split: if_splits prod.splits res.splits bool.splits dest: walk_no_create)

lemma getParentMap_Panic: "fst (getParentMap m fp create) = Panic \<Longrightarrow> fp = []"
  using walk_no_panic [of m "butlast fp" create]
  by (auto simp: getParentMap_def split: if_splits prod.splits res.splits bool.splits)

lemma add_no_panic: "add F x y \<noteq> Panic"
  by (cases "(F, x, y)" rule: add.cases) auto

lemma planValue_no_panic: "planValue E doc pm k v \<noteq> Panic"
  by (auto simp: planValue_def add_no_panic split: raw.splits val.splits sum.splits)

lemma planOne_unchanged: "planOne E doc md = (r, doc') \<Longrightarrow> doc' = doc"
  by (auto simp: planOne_def split: prod.splits res.splits dest: getParentMap_no_create)

lemma planOne_Panic: "fst (planOne E doc md) = Panic \<Longrightarrow> FieldPath md = []"
  using getParentMap_Panic [of doc "FieldPath md" False]
  by (auto simp: planOne_def planValue_no_panic split: prod.splits res.splits)

lemma plan_unchanged: "plan E doc mods = (r, doc') \<Longrightarrow> doc' = doc"
proof (induction mods arbitrary: doc r doc')
  case Nil
  then show ?case by simp
next
  case (Cons md mods)
  then show ?case
    by (auto split: prod.splits res.splits dest!: planOne_unchanged)
qed

lemma plan_Ok_all:
  "plan E doc mods = (Ok gs, doc') \<Longrightarrow> md \<in> set mods \<Longrightarrow> \<exists>g. fst (planOne E doc md) = Ok g"
proof (induction mods arbitrary: gs doc')
  case Nil
  then show ?case by simp
next
  case (Cons m mods)
  obtain r d1 where p1: "planOne E doc m = (r, d1)" by (cases "planOne E doc m")
  then have d1: "d1 = doc" by (rule planOne_unchanged)
  from Cons.prems(1) p1 d1 obtain g where r: "r = Ok g"
    by (cases r) auto
  obtain r2 d2 where p2: "plan E doc mods = (r2, d2)" by (cases "plan E doc mods")
  from Cons.prems(1) p1 d1 r p2 obtain gs' where r2: "r2 = Ok gs'"
    by (cases r2) auto
  show ?case
  proof (cases "md = m")
    case True
    with p1 r show ?thesis by simp
  next
    case False
    with Cons.prems(2) have "md \<in> set mods" by simp
    with Cons.IH p2 r2 show ?thesis by blast
  qed
qed

lemma plan_fails:
  assumes "[] \<notin> set (map FieldPath mods)"
    and "md \<in> set mods" and "fst (planOne E doc md) = Fail e"
  shows "\<exists>e'. plan E doc mods = (Fail e', doc)"
proof -
  obtain r d where p: "plan E doc mods = (r, d)" by (cases "plan E doc mods")
  then have d: "d = doc" by (rule plan_unchanged)
  have "r \<noteq> Panic" using assms(1) p
  proof (induction mods arbitrary: r d)
    case Nil
    then show ?case by auto
  next
    case (Cons m ms)
    obtain r1 d1 where p1: "planOne E doc m = (r1, d1)" by (cases "planOne E doc m")
    then have d1: "d1 = doc" by (rule planOne_unchanged)
    from Cons.prems(1) have "FieldPath m \<noteq> []" by auto
    with planOne_Panic [of E doc m] p1 have np: "r1 \<noteq> Panic" by auto
    obtain r2 d2 where p2: "plan E doc ms = (r2, d2)" by (cases "plan E doc ms")
    from Cons.prems(1) have "[] \<notin> set (map FieldPath ms)" by auto
    from Cons.IH [OF this p2] have "r2 \<noteq> Panic" .
    with Cons.prems(2) p1 d1 np p2 show ?case
      by (cases r1; cases r2) auto
  qed
  moreover have "\<forall>gs. r \<noteq> Ok gs"
  proof
    fix gs show "r \<noteq> Ok gs"
    proof
      assume "r = Ok gs"
      with p have "plan E doc mods = (Ok gs, d)" by simp
      from plan_Ok_all [OF this assms(2)] assms(3) show False by auto
    qed
  qed
  ultimately obtain e' where "r = Fail e'" by (cases r) auto
  with p d show ?thesis by auto
qed

lemma commit_no_Fail: "fst (commit gs dead doc) \<noteq> Fail e"
  by (induction gs dead doc rule: commit.induct) (auto split: option.splits)

lemma update_Fail_unchanged:
  "update E c doc mods = (Fail e, doc', c', ms) \<Longrightarrow> doc' = doc \<and> c' = c"
proof -
  assume u: "update E c doc mods = (Fail e, doc', c', ms)"
  obtain r d where p: "plan E doc (sortMods mods) = (r, d)" by (cases "plan E doc (sortMods mods)")
  then have d: "d = doc" by (rule plan_unchanged)
  show ?thesis
  proof (cases r)
    case Panic
    with u p show ?thesis by (auto simp: update_def split: if_splits)
  next
    case (Fail x)
    with u p d show ?thesis by (auto simp: update_def split: if_splits)
  next
    case (Ok gs)
    obtain r2 d2 where cm: "commit gs [] d = (r2, d2)" by (cases "commit gs [] d")
    have "r2 \<noteq> Fail e" for e
      using commit_no_Fail [of gs "[]" d e] cm by auto
    with u p d Ok cm show ?thesis
      by (cases r2) (auto simp: update_def split: if_splits prod.splits)
  qed
qed


lemma runLocked_Update:
  "Kind a = Update \<Longrightarrow> runLocked E u c a =
     (case currentDoc c a of
        None \<Rightarrow> (Fail (Gcerr NotFound), c, a)
      | Some cur \<Rightarrow>
          (case checkRevision E c (Doc a) (Some cur) of
             Panic \<Rightarrow> (Panic, c, a)
           | Fail err \<Rightarrow> (Fail err, c, a)
           | Ok x \<Rightarrow>
               (case update E c cur (Mods a) of
                  (Ok u', doc', c', mods') \<Rightarrow>
                    (Ok (),
                     c'\<lparr>docs := (docs c')(Key a \<mapsto> doc')\<rparr>,
                     a\<lparr>Mods := mods',
                       Doc :=
                         (case SetField E (Doc a) (RevisionField (opts c'))
                                 (Enc (mapIndex doc' (RevisionField (opts c')))) of
                            Inl err \<Rightarrow> Doc a
                          | Inr d \<Rightarrow> d)\<rparr>)
                | (Fail err, doc', c', mods') \<Rightarrow>
                    (Fail err, c'\<lparr>docs := (docs c')(Key a \<mapsto> doc')\<rparr>, a\<lparr>Mods := mods'\<rparr>)
                | (Panic, doc', c', mods') \<Rightarrow>
                    (Panic, c'\<lparr>docs := (docs c')(Key a \<mapsto> doc')\<rparr>, a\<lparr>Mods := mods'\<rparr>))))"
  by (simp add: runLocked_def Let_def split: option.splits)

lemma currentDoc_Some: "currentDoc c a = Some cur \<Longrightarrow> docs c (Key a) = Some cur"
  by (simp add: currentDoc_def split: if_splits)

lemma runLocked_Update_Fail:
  assumes "Kind a = Update" and "runLocked E u c a = (Fail e, c', a')"
  shows "c' = c"
proof (cases "currentDoc c a")
  case None
  with assms show ?thesis by (simp add: runLocked_Update)
next
  case (Some cur)
  show ?thesis
  proof (cases "checkRevision E c (Doc a) (Some cur)")
    case (Ok x)
    obtain r d c1 ms where up: "update E c cur (Mods a) = (r, d, c1, ms)"
      by (cases "update E c cur (Mods a)")
    with assms Some Ok have r: "r = Fail e" and c': "c' = c1\<lparr>docs := (docs c1)(Key a \<mapsto> d)\<rparr>"
      by (cases r; simp add: runLocked_Update)+
    from up r update_Fail_unchanged have "d = cur" "c1 = c" by blast+
    with c' currentDoc_Some [OF Some] show ?thesis by (simp add: map_upd_triv)
  qed (use assms Some in \<open>auto simp: runLocked_Update\<close>)
qed

subsection \<open>Update is atomic\<close>

lemma update_changed_planned:
  assumes "update E c doc mods = (r, doc', c', ms)" and "doc' \<noteq> doc \<or> c' \<noteq> c"
    and "md \<in> set mods"
  shows "\<exists>g. fst (planOne E doc md) = Ok g"
proof -
  obtain r0 d where p: "plan E doc (sortMods mods) = (r0, d)"
    by (cases "plan E doc (sortMods mods)")
  then have d: "d = doc" by (rule plan_unchanged)
  from assms(1,2) p d obtain gs where "r0 = Ok gs"
    by (cases r0) (auto simp: update_def split: if_splits)
  with p assms(3) plan_Ok_all [of E doc "sortMods mods" gs d md]
  show ?thesis by (simp add: sortMods_def)
qed

lemma planOne_path_fails:
  "fst (getParentMap doc (FieldPath md) False) = Fail e \<Longrightarrow> fst (planOne E doc md) = Fail e"
  by (auto simp: planOne_def split: prod.splits res.splits)

lemma planOne_increment_fails:
  assumes "Value md = IncOp amount"
    and "fst (getParentMap doc (FieldPath md) False) = Ok pm"
    and "encodeValue E amount = Inr amt"
    and "add (floats E) (refIndex doc pm (last (FieldPath md))) amt = Fail e"
  shows "fst (planOne E doc md) = Fail e"
proof -
  obtain d where g: "getParentMap doc (FieldPath md) False = (Ok pm, d)"
    using assms(2) by (cases "getParentMap doc (FieldPath md) False") auto
  then have "d = doc" by (rule getParentMap_no_create)
  with g assms(1,3,4) show ?thesis
    by (simp add: planOne_def planValue_def)
qed

text \<open>
  Claim C1. For an Update whose field paths are not empty: if planning fails for any
  modification, \<open>update\<close> returns an error and leaves the document and the collection
  (its revision counter) as they were; whenever \<open>update\<close> returns an error, nothing
  has changed; and when it returns without error, every modification was planned
  without error and the result is the committed plan with a fresh revision stamped.
  At the level of the action: an Update action that fails leaves the collection as it
  was. Whatever \<open>update\<close> does, the document or the counter change only when every
  modification was planned without error. Planning a modification fails when its path
  passes through a value that is neither nil nor a map, and when it is an increment whose
  addition fails (Claim C4 has the table: a current value that is not nil, an
  \<^verbatim>\<open>int64\<close> or a \<^verbatim>\<open>float64\<close>, or such a current value with an amount that is
  neither).
\<close>

theorem update_atomic:
  fixes E :: "('d, 'f) env"
  assumes "[] \<notin> set (map FieldPath mods)"
  shows
    "(\<forall>md e. md \<in> set mods \<and> fst (planOne E doc md) = Fail e \<longrightarrow>
        (\<exists>e'. update E c doc mods = (Fail e', doc, c, sortMods mods)))
     \<and> (\<forall>e doc' c' ms. update E c doc mods = (Fail e, doc', c', ms) \<longrightarrow> doc' = doc \<and> c' = c)
     \<and> (\<forall>doc' c' ms. update E c doc mods = (Ok (), doc', c', ms) \<longrightarrow>
          (\<forall>md. md \<in> set mods \<longrightarrow> (\<exists>g. fst (planOne E doc md) = Ok g))
          \<and> (\<exists>gmods. plan E doc (sortMods mods) = (Ok gmods, doc)
                \<and> changeRevision c (snd (commit gmods [] doc)) = (c', doc')))
     \<and> (\<forall>ctxErr u a e c' a'.
          Kind a = Update \<and> runAction E ctxErr u c a = (Fail e, c', a') \<longrightarrow> c' = c)
     \<and> (\<forall>r doc' c' ms md.
          update E c doc mods = (r, doc', c', ms) \<and> (doc' \<noteq> doc \<or> c' \<noteq> c) \<and> md \<in> set mods \<longrightarrow>
            (\<exists>g. fst (planOne E doc md) = Ok g))
     \<and> (\<forall>md e. fst (getParentMap doc (FieldPath md) False) = Fail e \<longrightarrow>
          fst (planOne E doc md) = Fail e)
     \<and> (\<forall>md amount pm amt e.
          Value md = IncOp amount \<and> fst (getParentMap doc (FieldPath md) False) = Ok pm
          \<and> encodeValue E amount = Inr amt
          \<and> add (floats E) (refIndex doc pm (last (FieldPath md))) amt = Fail e \<longrightarrow>
            fst (planOne E doc md) = Fail e)"
proof (intro conjI allI impI)
  fix md e
  assume a: "md \<in> set mods \<and> fst (planOne E doc md) = Fail e"
  have s: "set (sortMods mods) = set mods" by (simp add: sortMods_def)
  with assms have "[] \<notin> set (map FieldPath (sortMods mods))" by simp
  from plan_fails [OF this, of md E doc e] a s
  obtain e' where p: "plan E doc (sortMods mods) = (Fail e', doc)" by auto
  from assms have "\<not> (2 \<le> length mods \<and> [] \<in> set (map FieldPath mods))" by simp
  with p have "update E c doc mods = (Fail e', doc, c, sortMods mods)"
    by (simp add: update_def)
  then show "\<exists>e'. update E c doc mods = (Fail e', doc, c, sortMods mods)" ..
next
  fix e doc' c' ms
  assume "update E c doc mods = (Fail e, doc', c', ms)"
  then show "doc' = doc" "c' = c" using update_Fail_unchanged by blast+
next
  fix doc' c' ms md
  assume u: "update E c doc mods = (Ok (), doc', c', ms)" and m: "md \<in> set mods"
  obtain r d where p: "plan E doc (sortMods mods) = (r, d)"
    by (cases "plan E doc (sortMods mods)")
  with u obtain gs where "r = Ok gs"
    by (cases r) (auto simp: update_def split: if_splits)
  with p m plan_Ok_all [of E doc "sortMods mods" gs d md]
  show "\<exists>g. fst (planOne E doc md) = Ok g" by (simp add: sortMods_def)
next
  fix doc' c' ms
  assume u: "update E c doc mods = (Ok (), doc', c', ms)"
  obtain r d where p: "plan E doc (sortMods mods) = (r, d)"
    by (cases "plan E doc (sortMods mods)")
  then have d: "d = doc" by (rule plan_unchanged)
  from u p obtain gs where r: "r = Ok gs"
    by (cases r) (auto simp: update_def split: if_splits)
  obtain r2 d2 where cm: "commit gs [] doc = (r2, d2)" by (cases "commit gs [] doc")
  from u p d r cm have "changeRevision c d2 = (c', doc')"
    by (cases r2) (auto simp: update_def split: if_splits prod.splits)
  with p d r cm
  show "\<exists>gmods. plan E doc (sortMods mods) = (Ok gmods, doc)
          \<and> changeRevision c (snd (commit gmods [] doc)) = (c', doc')"
    by auto
next
  fix ctxErr u a e c' a'
  assume a: "Kind a = Update \<and> runAction E ctxErr u c a = (Fail e, c', a')"
  show "c' = c"
  proof (cases ctxErr)
    case None
    with a runLocked_Update_Fail [of a E u c e c' a'] show ?thesis
      by (simp add: runAction_def)
  next
    case (Some x)
    with a show ?thesis by (simp add: runAction_def)
  qed
next
  fix r doc' c' ms md
  assume "update E c doc mods = (r, doc', c', ms) \<and> (doc' \<noteq> doc \<or> c' \<noteq> c) \<and> md \<in> set mods"
  then show "\<exists>g. fst (planOne E doc md) = Ok g"
    using update_changed_planned [of E c doc mods r doc' c' ms md] by blast
next
  fix md :: "'f Mod" and e
  assume "fst (getParentMap doc (FieldPath md) False) = Fail e"
  then show "fst (planOne E doc md) = Fail e" by (rule planOne_path_fails)
next
  fix md :: "'f Mod" and amount pm amt e
  assume "Value md = IncOp amount \<and> fst (getParentMap doc (FieldPath md) False) = Ok pm
          \<and> encodeValue E amount = Inr amt
          \<and> add (floats E) (refIndex doc pm (last (FieldPath md))) amt = Fail e"
  then show "fst (planOne E doc md) = Fail e"
    using planOne_increment_fails [of md amount doc pm E amt e] by blast
qed


text \<open>
  Two updates of the document \<open>docK\<close>: in the first, the path \<^verbatim>\<open>a.b\<close> passes through
  the string stored at \<^verbatim>\<open>a\<close>, and nothing changes, although the modification of
  \<^verbatim>\<open>n\<close> could be planned; the second deletes \<^verbatim>\<open>a\<close>, increments the absent
  \<^verbatim>\<open>n\<close> and stamps revision 2.
\<close>

theorem update_atomic_witness:
  "[] \<notin> set (map FieldPath
      [\<lparr>FieldPath = [''n''], Value = Enc (VInt 5)\<rparr>,
       \<lparr>FieldPath = [''a'', ''b''], Value = Enc (VInt 1)\<rparr> :: real Mod])
   \<and> fst (planOne docmapEnv docK \<lparr>FieldPath = [''a'', ''b''], Value = Enc (VInt 1)\<rparr>)
       = Fail (Gcerr InvalidArgument)
   \<and> update docmapEnv coll1 docK
       [\<lparr>FieldPath = [''n''], Value = Enc (VInt 5)\<rparr>,
        \<lparr>FieldPath = [''a'', ''b''], Value = Enc (VInt 1)\<rparr>]
       = (Fail (Gcerr InvalidArgument), docK, coll1,
          [\<lparr>FieldPath = [''a'', ''b''], Value = Enc (VInt 1)\<rparr>,
           \<lparr>FieldPath = [''n''], Value = Enc (VInt 5)\<rparr>])
   \<and> update docmapEnv coll1 docK
       [\<lparr>FieldPath = [''n''], Value = IncOp (Enc (VInt 5))\<rparr>,
        \<lparr>FieldPath = [''a''], Value = Enc VNil\<rparr>]
       = (Ok (), [(''name'', VString ''k''), (''DocstoreRevision'', VInt 2), (''n'', VInt 5)],
          coll1\<lparr>curRevision := 2\<rparr>,
          [\<lparr>FieldPath = [''a''], Value = Enc VNil\<rparr>,
           \<lparr>FieldPath = [''n''], Value = IncOp (Enc (VInt 5))\<rparr>])
   \<and> Kind (updateK [\<lparr>FieldPath = [''a'', ''b''], Value = Enc (VInt 1)\<rparr>]) = Update
   \<and> fst (snd (runAction docmapEnv None [] coll1
        (updateK [\<lparr>FieldPath = [''a'', ''b''], Value = Enc (VInt 1)\<rparr>]))) = coll1"
  using update_atomic [of "[\<lparr>FieldPath = [''n''], Value = Enc (VInt 5)\<rparr>,
       \<lparr>FieldPath = [''a'', ''b''], Value = Enc (VInt 1)\<rparr>]" docmapEnv docK coll1]
    update_atomic [of "[\<lparr>FieldPath = [''n''], Value = IncOp (Enc (VInt 5))\<rparr>,
        \<lparr>FieldPath = [''a''], Value = Enc VNil\<rparr>]" docmapEnv docK coll1]
  by (simp add: eval_defs)

subsection \<open>A path through an absent field\<close>

text \<open>
  Claim C10 says that the commit phase never assigns into a nil parent map. The
  code does: for the path \<^verbatim>\<open>x.y\<close> on a document without \<^verbatim>\<open>x\<close>,
  \<^verbatim>\<open>getParentMap\<close> with \<^verbatim>\<open>create = false\<close> returns a nil map and no error,
  planning succeeds, and the assignment \<^verbatim>\<open>m.parentMap[m.key] = m.encodedValue\<close>
  panics.
\<close>

theorem update_absent_parent_panics:
  "getParentMap docK [''x'', ''y''] False = (Ok None, docK)
   \<and> update docmapEnv coll1 docK [\<lparr>FieldPath = [''x'', ''y''], Value = Enc (VInt 1)\<rparr>]
       = (Panic, docK, coll1, [\<lparr>FieldPath = [''x'', ''y''], Value = Enc (VInt 1)\<rparr>])
   \<and> fst (runAction docmapEnv None [] coll1
            (updateK [\<lparr>FieldPath = [''x'', ''y''], Value = Enc (VInt 1)\<rparr>])) = Panic"
  by (simp add: eval_defs)

subsection \<open>Increment addition\<close>

text \<open>
  Claim C4. The type table of \<open>add\<close>: nil plus \<open>y\<close> is \<open>y\<close>; two integers give
  their (wrapping) \<^verbatim>\<open>int64\<close> sum; an integer and a float, in either order, and two
  floats give the float sum; a left operand that is not nil, an integer or a float
  fails with \<open>InvalidArgument\<close>; with an integer or float on the left, a right operand
  that is neither fails with \<open>Internal\<close>.
\<close>

theorem add_type_table:
  "add F VNil y = Ok y
   \<and> add F (VInt i) (VInt j) = Ok (VInt (i + j))
   \<and> add F (VInt i) (VFloat g) = Ok (VFloat (fadd F (fconv F i) g))
   \<and> add F (VFloat f) (VInt j) = Ok (VFloat (fadd F f (fconv F j)))
   \<and> add F (VFloat f) (VFloat g) = Ok (VFloat (fadd F f g))
   \<and> (x \<noteq> VNil \<and> (\<forall>a. x \<noteq> VInt a) \<and> (\<forall>b. x \<noteq> VFloat b) \<longrightarrow>
        add F x y = Fail (Gcerr InvalidArgument))
   \<and> (((\<exists>a. x = VInt a) \<or> (\<exists>b. x = VFloat b)) \<and> (\<forall>a. y \<noteq> VInt a) \<and> (\<forall>b. y \<noteq> VFloat b) \<longrightarrow>
        add F x y = Fail (Gcerr Internal))"
proof -
  have l: "add F x y = Fail (Gcerr InvalidArgument)"
    if "x \<noteq> VNil" "\<forall>a. x \<noteq> VInt a" "\<forall>b. x \<noteq> VFloat b"
    using that by (cases x) simp_all
  have r: "add F x y = Fail (Gcerr Internal)"
    if "(\<exists>a. x = VInt a) \<or> (\<exists>b. x = VFloat b)" "\<forall>a. y \<noteq> VInt a" "\<forall>b. y \<noteq> VFloat b"
    using that by (cases x; cases y) auto
  show ?thesis using l r by simp
qed

theorem add_type_table_witness:
  "add (floats docmapEnv) (VString ''3'') (VInt 1) = Fail (Gcerr InvalidArgument)
   \<and> add (floats docmapEnv) (VInt 1) (VString ''3'') = Fail (Gcerr Internal)
   \<and> add (floats docmapEnv) (VFloat 3.5) VNil = Fail (Gcerr Internal)
   \<and> add (floats docmapEnv) (VInt 9223372036854775807) (VInt 1) = Ok (VInt (- 9223372036854775808))
   \<and> add (floats docmapEnv) (VInt 1) (VFloat 2.5) = Ok (VFloat 3.5)"
  using add_type_table [where F = "floats docmapEnv" and x = "VString ''3''" and y = "VInt 1"]
    add_type_table [where F = "floats docmapEnv" and x = "VInt 1" and y = "VString ''3''"]
    add_type_table [where F = "floats docmapEnv" and x = "VFloat 3.5" and y = VNil]
    add_type_table [where F = "floats docmapEnv" and i = 9223372036854775807 and j = 1]
    add_type_table [where F = "floats docmapEnv" and i = 1 and g = "2.5"]
  by (simp add: docmapEnv_def)

subsection \<open>The branches of \<^verbatim>\<open>runAction\<close>\<close>

lemma runLocked_putDoc:
  "Kind a = Put \<or> Kind a = Replace \<and> currentDoc c a \<noteq> None \<Longrightarrow>
     runLocked E u c a = putDoc E c a (currentDoc c a)"
  by (auto simp: runLocked_def Let_def)

lemma runLocked_Create:
  "Kind a = Create \<Longrightarrow> runLocked E u c a =
     (if currentDoc c a \<noteq> None then (Fail (Gcerr AlreadyExists), c, a)
      else if Key a = Enc VNil then
        (case SetField E (Doc a) (keyField c) (Enc (VString u)) of
           Inl err \<Rightarrow> (Fail (Gcerr InvalidArgument), c, a\<lparr>Key := Enc (VString u)\<rparr>)
         | Inr d \<Rightarrow> putDoc E c (a\<lparr>Key := Enc (VString u), Doc := d\<rparr>) None)
      else putDoc E c a None)"
  by (auto simp: runLocked_def Let_def split: sum.splits)

lemma runLocked_Delete:
  "Kind a = Delete \<Longrightarrow> runLocked E u c a =
     (case checkRevision E c (Doc a) (currentDoc c a) of
        Panic \<Rightarrow> (Panic, c, a)
      | Fail err \<Rightarrow> (Fail err, c, a)
      | Ok x \<Rightarrow> (Ok (), c\<lparr>docs := (docs c)(Key a := None)\<rparr>, a))"
  by (simp add: runLocked_def Let_def)

lemma runLocked_Get:
  "Kind a = Get \<Longrightarrow> runLocked E u c a =
     (case currentDoc c a of
        None \<Rightarrow> (Fail (Gcerr NotFound), c, a)
      | Some cur \<Rightarrow>
          (case decodeDoc E cur (Doc a) (FieldPaths a) (RevisionField (opts c)) of
             (None, d) \<Rightarrow> (Ok (), c, a\<lparr>Doc := d\<rparr>)
           | (Some err, d) \<Rightarrow> (Fail err, c, a\<lparr>Doc := d\<rparr>)))"
  by (simp add: runLocked_def Let_def split: option.splits)

lemma runLocked_NotFound:
  "Kind a = Replace \<or> Kind a = Update \<or> Kind a = Get \<Longrightarrow> currentDoc c a = None \<Longrightarrow>
     runLocked E u c a = (Fail (Gcerr NotFound), c, a)"
  by (auto simp: runLocked_def Let_def)

lemma runLocked_OtherKind:
  "Kind a = OtherKind n \<Longrightarrow> runLocked E u c a = (Fail (Gcerr Internal), c, a)"
  by (simp add: runLocked_def Let_def)

lemma checkRevision_None: "checkRevision E c arg None = Ok ()"
  by (simp add: checkRevision_def)

subsection \<open>Presence of the key\<close>

text \<open>
  Claim C5. For an action whose context is not done: Create on a key that is stored
  fails with \<open>AlreadyExists\<close>; Replace, Update and Get on a key that is nil or not
  stored fail with \<open>NotFound\<close>; each of these failures leaves the collection and the
  action as they were. Delete on a key that is not stored returns no error and changes
  nothing, and a Delete that succeeded, run again, succeeds and changes nothing.
\<close>

theorem presence_outcomes:
  "(Kind a = Create \<and> Key a \<noteq> Enc VNil \<and> docs c (Key a) \<noteq> None \<longrightarrow>
      runAction E None u c a = (Fail (Gcerr AlreadyExists), c, a))
   \<and> ((Kind a = Replace \<or> Kind a = Update \<or> Kind a = Get)
        \<and> (Key a = Enc VNil \<or> docs c (Key a) = None) \<longrightarrow>
      runAction E None u c a = (Fail (Gcerr NotFound), c, a))
   \<and> (Kind a = Delete \<and> docs c (Key a) = None \<longrightarrow>
      runAction E None u c a = (Ok (), c, a))
   \<and> (\<forall>c' a' u'. Kind a = Delete \<and> runAction E None u c a = (Ok (), c', a') \<longrightarrow>
      runAction E None u' c' a' = (Ok (), c', a'))"
proof (intro conjI allI impI)
  assume "Kind a = Create \<and> Key a \<noteq> Enc VNil \<and> docs c (Key a) \<noteq> None"
  then show "runAction E None u c a = (Fail (Gcerr AlreadyExists), c, a)"
    by (simp add: runAction_def runLocked_Create currentDoc_def)
next
  assume "(Kind a = Replace \<or> Kind a = Update \<or> Kind a = Get)
        \<and> (Key a = Enc VNil \<or> docs c (Key a) = None)"
  then have "Kind a = Replace \<or> Kind a = Update \<or> Kind a = Get" "currentDoc c a = None"
    by (auto simp: currentDoc_def)
  then show "runAction E None u c a = (Fail (Gcerr NotFound), c, a)"
    by (simp add: runAction_def runLocked_NotFound)
next
  assume h: "Kind a = Delete \<and> docs c (Key a) = None"
  then have "currentDoc c a = None" by (simp add: currentDoc_def)
  moreover from h have "(docs c)(Key a := None) = docs c" by auto
  ultimately show "runAction E None u c a = (Ok (), c, a)"
    using h by (simp add: runAction_def runLocked_Delete checkRevision_None)
next
  fix c' a' u'
  assume h: "Kind a = Delete \<and> runAction E None u c a = (Ok (), c', a')"
  then have c': "c' = c\<lparr>docs := (docs c)(Key a := None)\<rparr>" and a': "a' = a"
    by (auto simp: runAction_def runLocked_Delete split: res.splits)
  then have "currentDoc c' a' = None" by (simp add: currentDoc_def)
  with h c' a' show "runAction E None u' c' a' = (Ok (), c', a')"
    by (simp add: runAction_def runLocked_Delete checkRevision_None)
qed


theorem presence_outcomes_witness:
  "runAction docmapEnv None [] coll1 (act Create (Enc (VString ''k'')) [(''name'', VString ''k'')])
     = (Fail (Gcerr AlreadyExists), coll1, act Create (Enc (VString ''k'')) [(''name'', VString ''k'')])
   \<and> runAction docmapEnv None [] coll0 (act Replace (Enc (VString ''k'')) [(''name'', VString ''k'')])
     = (Fail (Gcerr NotFound), coll0, act Replace (Enc (VString ''k'')) [(''name'', VString ''k'')])
   \<and> runAction docmapEnv None [] coll1 (act Get (Enc VNil) [])
     = (Fail (Gcerr NotFound), coll1, act Get (Enc VNil) [])
   \<and> runAction docmapEnv None [] coll0 (act Delete (Enc (VString ''k'')) [(''name'', VString ''k'')])
     = (Ok (), coll0, act Delete (Enc (VString ''k'')) [(''name'', VString ''k'')])
   \<and> runAction docmapEnv None [] coll1 (act Delete (Enc (VString ''k'')) [(''name'', VString ''k'')])
     = (Ok (), coll1\<lparr>docs := Map.empty\<rparr>, act Delete (Enc (VString ''k'')) [(''name'', VString ''k'')])
   \<and> runAction docmapEnv None [] (coll1\<lparr>docs := Map.empty\<rparr>)
        (act Delete (Enc (VString ''k'')) [(''name'', VString ''k'')])
     = (Ok (), coll1\<lparr>docs := Map.empty\<rparr>, act Delete (Enc (VString ''k'')) [(''name'', VString ''k'')])"
  using
    presence_outcomes [where E = docmapEnv and u = "[]" and c = coll1
      and a = "act Create (Enc (VString ''k'')) [(''name'', VString ''k'')]"]
    presence_outcomes [where E = docmapEnv and u = "[]" and c = coll0
      and a = "act Replace (Enc (VString ''k'')) [(''name'', VString ''k'')]"]
    presence_outcomes [where E = docmapEnv and u = "[]" and c = coll1
      and a = "act Get (Enc VNil) []"]
    presence_outcomes [where E = docmapEnv and u = "[]" and c = coll0
      and a = "act Delete (Enc (VString ''k'')) [(''name'', VString ''k'')]"]
    presence_outcomes [where E = docmapEnv and u = "[]" and c = coll1
      and a = "act Delete (Enc (VString ''k'')) [(''name'', VString ''k'')]"]
  by (simp add: eval_defs)

subsection \<open>The revision check\<close>

lemma putDoc_checked:
  "checkRevision E c (Doc a) cur = Ok () \<Longrightarrow> putDoc E c a cur = putDoc E c a None"
  by (simp add: putDoc_def checkRevision_None)

lemma putDoc_None_outcome:
  "fst (putDoc E c a None) = (case encodeDoc E (Doc a) of Inl err \<Rightarrow> Fail err | Inr doc \<Rightarrow> Ok ())"
  by (simp add: putDoc_def checkRevision_None split: sum.splits prod.splits)

lemma runAction_checkRevision_Fail:
  assumes "Kind a = Put \<or> Kind a = Replace \<or> Kind a = Update \<or> Kind a = Delete"
    and "currentDoc c a = Some cur"
    and "checkRevision E c (Doc a) (Some cur) = Fail e"
  shows "runAction E None u c a = (Fail e, c, a)"
  using assms
  by (auto simp: runAction_def runLocked_putDoc runLocked_Delete runLocked_Update putDoc_def)

lemma runAction_checkRevision_Ok:
  assumes "currentDoc c a = Some cur"
    and "checkRevision E c (Doc a) (Some cur) = Ok ()"
  shows "Kind a = Put \<or> Kind a = Replace \<longrightarrow> runAction E None u c a = putDoc E c a None"
    and "Kind a = Delete \<longrightarrow> runAction E None u c a = (Ok (), c\<lparr>docs := (docs c)(Key a := None)\<rparr>, a)"
    and "Kind a = Update \<longrightarrow> fst (runAction E None u c a) = fst (update E c cur (Mods a))"
  using assms
  by (auto simp: runAction_def runLocked_putDoc runLocked_Delete runLocked_Update putDoc_checked
      split: prod.splits res.splits)

text \<open>
  Claim C3. For a Put, Replace, Update or Delete whose key is stored, with an
  \<^verbatim>\<open>int64\<close> revision \<open>curRev\<close> in the stored document: a caller's revision that
  is present, not nil and not an \<^verbatim>\<open>int64\<close> fails the action with
  \<open>InvalidArgument\<close>; an \<^verbatim>\<open>int64\<close> other than \<open>curRev\<close> fails it with
  \<open>FailedPrecondition\<close>; in both cases nothing changes. When the revision is absent
  (\<^verbatim>\<open>GetField\<close> fails), nil or equal to \<open>curRev\<close>, the check returns no error and
  the action goes on: Put and Replace do what an insert does, Delete removes the
  key, Update returns what \<open>update\<close> returns. A Put whose key is not stored never
  reaches a comparison: the check returns at once and the outcome is the codec's.
\<close>

theorem revision_check:
  assumes "Kind a = Put \<or> Kind a = Replace \<or> Kind a = Update \<or> Kind a = Delete"
    and "Key a \<noteq> Enc VNil"
    and "docs c (Key a) = Some cur"
    and "mapIndex cur (RevisionField (opts c)) = VInt curRev"
  shows
    "(\<forall>r. GetField E (Doc a) (RevisionField (opts c)) = Inr r \<and> r \<noteq> Enc VNil
          \<and> (\<forall>w. r \<noteq> Enc (VInt w)) \<longrightarrow>
        runAction E None u c a = (Fail (Gcerr InvalidArgument), c, a))
     \<and> (\<forall>w. GetField E (Doc a) (RevisionField (opts c)) = Inr (Enc (VInt w)) \<and> w \<noteq> curRev \<longrightarrow>
        runAction E None u c a = (Fail (Gcerr FailedPrecondition), c, a))
     \<and> ((\<exists>err. GetField E (Doc a) (RevisionField (opts c)) = Inl err)
          \<or> GetField E (Doc a) (RevisionField (opts c)) = Inr (Enc VNil)
          \<or> GetField E (Doc a) (RevisionField (opts c)) = Inr (Enc (VInt curRev)) \<longrightarrow>
        checkRevision E c (Doc a) (Some cur) = Ok ()
        \<and> (Kind a = Put \<or> Kind a = Replace \<longrightarrow> runAction E None u c a = putDoc E c a None)
        \<and> (Kind a = Delete \<longrightarrow>
             runAction E None u c a = (Ok (), c\<lparr>docs := (docs c)(Key a := None)\<rparr>, a))
        \<and> (Kind a = Update \<longrightarrow> fst (runAction E None u c a) = fst (update E c cur (Mods a))))
     \<and> (\<forall>b. Kind b = Put \<and> (Key b = Enc VNil \<or> docs c (Key b) = None) \<longrightarrow>
          checkRevision E c (Doc b) (currentDoc c b) = Ok ()
          \<and> runAction E None u c b = putDoc E c b None
          \<and> fst (putDoc E c b None)
              = (case encodeDoc E (Doc b) of Inl err \<Rightarrow> Fail err | Inr doc \<Rightarrow> Ok ()))"
proof -
  from assms(2,3) have cur: "currentDoc c a = Some cur" by (simp add: currentDoc_def)
  have 1: "runAction E None u c a = (Fail (Gcerr InvalidArgument), c, a)"
    if "GetField E (Doc a) (RevisionField (opts c)) = Inr r" "r \<noteq> Enc VNil" "\<forall>w. r \<noteq> Enc (VInt w)"
    for r
  proof -
    from that assms(4) have "checkRevision E c (Doc a) (Some cur) = Fail (Gcerr InvalidArgument)"
      by (auto simp: checkRevision_def split: raw.splits val.splits)
    with runAction_checkRevision_Fail [OF assms(1) cur] show ?thesis by simp
  qed
  have 2: "runAction E None u c a = (Fail (Gcerr FailedPrecondition), c, a)"
    if "GetField E (Doc a) (RevisionField (opts c)) = Inr (Enc (VInt w))" "w \<noteq> curRev" for w
  proof -
    from that assms(4) have "checkRevision E c (Doc a) (Some cur) = Fail (Gcerr FailedPrecondition)"
      by (simp add: checkRevision_def)
    with runAction_checkRevision_Fail [OF assms(1) cur] show ?thesis by simp
  qed
  have 3: "checkRevision E c (Doc a) (Some cur) = Ok ()"
    if "(\<exists>err. GetField E (Doc a) (RevisionField (opts c)) = Inl err)
          \<or> GetField E (Doc a) (RevisionField (opts c)) = Inr (Enc VNil)
          \<or> GetField E (Doc a) (RevisionField (opts c)) = Inr (Enc (VInt curRev))"
    using that assms(4) by (auto simp: checkRevision_def)
  have 4: "checkRevision E c (Doc b) (currentDoc c b) = Ok ()
          \<and> runAction E None u c b = putDoc E c b None
          \<and> fst (putDoc E c b None)
              = (case encodeDoc E (Doc b) of Inl err \<Rightarrow> Fail err | Inr doc \<Rightarrow> Ok ())"
    if "Kind b = Put \<and> (Key b = Enc VNil \<or> docs c (Key b) = None)" for b
  proof -
    from that have "currentDoc c b = None" by (auto simp: currentDoc_def)
    with that show ?thesis
      by (simp add: checkRevision_None runAction_def runLocked_putDoc putDoc_None_outcome)
  qed
  from 1 2 3 4 runAction_checkRevision_Ok [OF cur, of E u] show ?thesis
    by blast
qed

theorem revision_check_witness:
  "Kind (putK (VInt 7)) = Put \<and> Key (putK (VInt 7)) \<noteq> Enc VNil
   \<and> docs coll1 (Key (putK (VInt 7))) = Some docK
   \<and> mapIndex docK (RevisionField (opts coll1)) = VInt 1
   \<and> runAction docmapEnv None [] coll1 (putK (VString ''x''))
       = (Fail (Gcerr InvalidArgument), coll1, putK (VString ''x''))
   \<and> runAction docmapEnv None [] coll1 (putK (VInt 7))
       = (Fail (Gcerr FailedPrecondition), coll1, putK (VInt 7))
   \<and> fst (runAction docmapEnv None [] coll1 (putK (VInt 1))) = Ok ()
   \<and> fst (runAction docmapEnv None [] coll1 putK0) = Ok ()
   \<and> fst (runAction docmapEnv None [] coll1 (putK VNil)) = Ok ()
   \<and> fst (runAction docmapEnv None [] coll0 (putK (VInt 7))) = Ok ()"
  using
    revision_check [where E = docmapEnv and u = "[]" and c = coll1 and cur = docK and curRev = 1
      and a = "putK (VString ''x'')"]
    revision_check [where E = docmapEnv and u = "[]" and c = coll1 and cur = docK and curRev = 1
      and a = "putK (VInt 7)"]
    revision_check [where E = docmapEnv and u = "[]" and c = coll1 and cur = docK and curRev = 1
      and a = "putK (VInt 1)"]
    revision_check [where E = docmapEnv and u = "[]" and c = coll1 and cur = docK and curRev = 1
      and a = "putK0"]
  by (simp add: eval_defs)

subsection \<open>Cancellation\<close>

lemma runSeq_append:
  "runSeq E c (s1 @ s2) = (case runSeq E c s1 of None \<Rightarrow> None | Some c1 \<Rightarrow> runSeq E c1 s2)"
proof (induction s1 arbitrary: c)
  case Nil
  then show ?case by simp
next
  case (Cons st s1)
  obtain ctxErr u a where st: "st = (ctxErr, u, a)" by (cases st)
  obtain r c' a' where ra: "runAction E ctxErr u c a = (r, c', a')"
    by (cases "runAction E ctxErr u c a")
  with Cons.IH [of c'] st show ?case by (cases r) simp_all
qed

text \<open>
  Claim C8. An action whose context is done when it starts returns the context's
  error, whatever the collection holds, and leaves the collection and the action as
  they were; an action whose context is not done runs its critical section, which
  does not read the context. In a sequence of actions, a cancelled action changes
  nothing: what the actions before it stored is what the actions after it find.
\<close>

theorem cancellation:
  "runAction E (Some err) u c a = (Fail err, c, a)
   \<and> runAction E None u c a = runLocked E u c a
   \<and> runSeq E c (steps1 @ (Some err, u, a) # steps2)
       = (case runSeq E c steps1 of None \<Rightarrow> None | Some c1 \<Rightarrow> runSeq E c1 steps2)"
  by (simp add: runSeq_append runAction_def split: option.splits)

subsection \<open>Create without a key\<close>




text \<open>When the key field cannot be set, the action fails and nothing is stored.\<close>

lemma create_without_key_SetField_fails:
  assumes "Kind a = Create" and "Key a = Enc VNil"
    and "SetField E (Doc a) (keyField c) (Enc (VString uniq)) = Inl err"
  shows "runAction E None uniq c a = (Fail (Gcerr InvalidArgument), c, a\<lparr>Key := Enc (VString uniq)\<rparr>)"
  using assms by (simp add: runAction_def runLocked_Create currentDoc_def)


subsection \<open>BeforeDo\<close>

lemma NewActionListError_replicate:
  "NewActionListError (replicate n (Some err)) = map (\<lambda>i. (i, err)) [0..<n]"
proof -
  have "zip xs (replicate (length xs) y) = map (\<lambda>i. (i, y)) xs" for xs :: "nat list" and y :: "error option"
    by (induction xs) simp_all
  from this [of "[0..<n]" "Some err"]
  have "zip [0..<n] (replicate n (Some err)) = map (\<lambda>i. (i, Some err)) [0..<n]"
    by simp
  then show ?thesis
    by (simp add: NewActionListError_def comp_def concat_map_singleton)
qed

lemma runGroups_state:
  "runGroups E W c actions s = Ok (al, c', s', calls) \<Longrightarrow> s' = s"
  by (auto simp: runGroups_def split: prod.splits res.splits)

text \<open>
  Claim C7. For a call of \<^verbatim>\<open>RunActions\<close> with a \<^verbatim>\<open>BeforeDo\<close> callback: the
  callback is applied to the function that is false for every argument; if it
  returns an error, the call returns that error for every index of the action list,
  with the collection as it was and no call of \<^verbatim>\<open>runAction\<close> made; otherwise the
  groups run from the state the callback left. Whenever the call returns, the caller's
  state is the state after one application of the callback to the state before: it was
  called once.
\<close>

theorem BeforeDo_semantics:
  assumes "BeforeDo ropts = Some cb"
  shows
    "(\<forall>err s'. cb (\<lambda>i. False) s = (Some err, s') \<longrightarrow>
        RunActions E W c actions ropts s
          = Ok (map (\<lambda>i. (i, err)) [0..<length actions], c, s', []))
     \<and> (\<forall>s'. cb (\<lambda>i. False) s = (None, s') \<longrightarrow>
        RunActions E W c actions ropts s = runGroups E W c actions s')
     \<and> (\<forall>al c' s' calls. RunActions E W c actions ropts s = Ok (al, c', s', calls) \<longrightarrow>
        s' = snd (cb (\<lambda>i. False) s))"
proof (intro conjI allI impI)
  fix err s'
  assume "cb (\<lambda>i. False) s = (Some err, s')"
  with assms show "RunActions E W c actions ropts s
          = Ok (map (\<lambda>i. (i, err)) [0..<length actions], c, s', [])"
    by (simp add: RunActions_def NewActionListError_replicate)
next
  fix s'
  assume "cb (\<lambda>i. False) s = (None, s')"
  with assms show "RunActions E W c actions ropts s = runGroups E W c actions s'"
    by (simp add: RunActions_def)
next
  fix al c' s' calls
  assume r: "RunActions E W c actions ropts s = Ok (al, c', s', calls)"
  obtain e s1 where cb: "cb (\<lambda>i. False) s = (e, s1)" by (cases "cb (\<lambda>i. False) s")
  show "s' = snd (cb (\<lambda>i. False) s)"
  proof (cases e)
    case None
    with r cb assms have "runGroups E W c actions s1 = Ok (al, c', s', calls)"
      by (simp add: RunActions_def)
    with runGroups_state cb show ?thesis by fastforce
  next
    case (Some err)
    with r cb assms show ?thesis by (simp add: RunActions_def)
  qed
qed

text \<open>The definitions that the closed examples of action lists unfold.\<close>

lemmas eval_defs2 = eval_defs RunActions_def runGroups_def run_def NewActionListError_def
  world0_def countingStop_def countingGo_def

text \<open>
  A callback that returns an error stops two Puts; one that returns none lets a Put
  replace the document with key \<^verbatim>\<open>k\<close>. Both were called once.
\<close>

theorem BeforeDo_semantics_witness:
  "BeforeDo \<lparr>BeforeDo = Some countingStop\<rparr> = Some countingStop
   \<and> RunActions docmapEnv world0 coll1 [putK0, putK0\<lparr>Index := 1\<rparr>] \<lparr>BeforeDo = Some countingStop\<rparr> 0
       = Ok ([(0, Plain ''stop''), (1, Plain ''stop'')], coll1, 1, [])
   \<and> RunActions docmapEnv world0 coll1 [putK0] \<lparr>BeforeDo = Some countingGo\<rparr> 0
       = Ok ([],
             coll1\<lparr>curRevision := 2,
               docs := [Enc (VString ''k'') \<mapsto>
                         [(''name'', VString ''k''), (''DocstoreRevision'', VInt 2)]]\<rparr>,
             1,
             [act Put (Enc (VString ''k'')) [(''name'', VString ''k''), (''DocstoreRevision'', VInt 2)]])"
  using
    BeforeDo_semantics [where ropts = "\<lparr>BeforeDo = Some countingStop\<rparr>" and cb = countingStop
      and s = 0 and E = docmapEnv and W = world0 and c = coll1
      and actions = "[putK0, putK0\<lparr>Index := 1\<rparr>]"]
    BeforeDo_semantics [where ropts = "\<lparr>BeforeDo = Some countingGo\<rparr>" and cb = countingGo
      and s = 0 and E = docmapEnv and W = world0 and c = coll1
      and actions = "[putK0]"]
  by (simp add: eval_defs2)


subsection \<open>Opening a collection by URL\<close>

lemma open_invalid:
  "\<not> validURL u \<Longrightarrow> \<exists>m. OpenCollectionURL D op heap u = (Inl (Plain m), op, heap)"
  by (auto simp: validURL_def OpenCollectionURL_def Let_def)

lemma open_known:
  assumes "validURL u" and "collections op (Host u) = Some uc"
  shows "OpenCollectionURL D op heap u =
     (if keyName uc \<noteq> keyNameOf u
      then (Inl (Plain ''key name does not equal existing key name''), op, heap)
      else (Inr (coll uc), op, heap))"
  using assms by (auto simp: validURL_def OpenCollectionURL_def Let_def)

lemma open_new:
  assumes "validURL u" and "collections op (Host u) = None"
  shows "\<exists>c. OpenCollectionURL D op (heap :: ('d, 'f) collection list) u =
     (Inr (length heap),
      op\<lparr>collections := (collections op)(Host u \<mapsto> \<lparr>keyName = keyNameOf u, coll = length heap\<rparr>)\<rparr>,
      heap @ [c])"
  using assms
  by (auto simp: validURL_def OpenCollectionURL_def Let_def OpenCollection_def newCollection_def)

lemma open_keeps:
  assumes "collections op h = Some uc" and "OpenCollectionURL D op heap u = (r, op', heap')"
  shows "collections op' h = Some uc"
proof (cases "validURL u")
  case False
  from open_invalid [OF this, of D op heap] assms show ?thesis by auto
next
  case True
  show ?thesis
  proof (cases "collections op (Host u)")
    case None
    with assms(1) have "Host u \<noteq> h" by auto
    with open_new [OF True None, of D heap] assms show ?thesis by auto
  next
    case (Some x)
    from open_known [OF True Some, of D heap] assms show ?thesis by (auto split: if_splits)
  qed
qed

lemma openAll_keeps:
  "collections op h = Some uc \<Longrightarrow> openAll D op heap us = (op', heap') \<Longrightarrow>
     collections op' h = Some uc"
proof (induction us arbitrary: op heap)
  case Nil
  then show ?case by simp
next
  case (Cons u us)
  obtain r op1 heap1 where o: "OpenCollectionURL D op heap u = (r, op1, heap1)"
    by (cases "OpenCollectionURL D op heap u")
  from open_keeps [OF Cons.prems(1) o] have "collections op1 h = Some uc" .
  with Cons.IH [of op1 heap1] Cons.prems(2) o show ?case by simp
qed

lemma open_Inr:
  assumes "OpenCollectionURL D op heap u = (Inr p, op1, heap1)"
  shows "validURL u \<and> collections op1 (Host u) = Some \<lparr>keyName = keyNameOf u, coll = p\<rparr>"
proof (cases "validURL u")
  case False
  from open_invalid [OF this, of D op heap] assms show ?thesis by auto
next
  case True
  show ?thesis
  proof (cases "collections op (Host u)")
    case None
    with open_new [OF True None, of D heap] assms True show ?thesis by auto
  next
    case (Some x)
    from open_known [OF True Some, of D heap] assms True Some show ?thesis
      by (cases x) (auto split: if_splits)
  qed
qed

text \<open>
  Claim C9, amended: the opener's errors are plain errors made by \<^verbatim>\<open>fmt.Errorf\<close>,
  none carries the code \<open>InvalidArgument\<close>. A URL with a query parameter, an empty
  host, or a key name that is empty or contains a slash fails, and the opener is as it
  was. After a URL was opened, and whatever was opened on the same opener since, opening
  it again returns the same collection and leaves the opener and the collections as they
  are; opening the same host with another (well-formed) key name fails. Every failure
  leaves the opener and the collections as they were.
\<close>

theorem url_reopen:
  "(Query u \<noteq> [] \<or> Host u = [] \<or> keyNameOf u = [] \<or> CHR ''/'' \<in> set (keyNameOf u) \<longrightarrow>
      (\<exists>m. OpenCollectionURL D op heap u = (Inl (Plain m), op, heap)))
   \<and> (\<forall>p op1 heap1 us op2 heap2.
        OpenCollectionURL D op heap u = (Inr p, op1, heap1) \<and> openAll D op1 heap1 us = (op2, heap2) \<longrightarrow>
        OpenCollectionURL D op2 heap2 u = (Inr p, op2, heap2))
   \<and> (\<forall>p op1 heap1 us op2 heap2 u'.
        OpenCollectionURL D op heap u = (Inr p, op1, heap1) \<and> openAll D op1 heap1 us = (op2, heap2)
        \<and> Host u' = Host u \<and> Query u' = [] \<and> keyNameOf u' \<noteq> [] \<and> CHR ''/'' \<notin> set (keyNameOf u')
        \<and> keyNameOf u' \<noteq> keyNameOf u \<longrightarrow>
        OpenCollectionURL D op2 heap2 u'
          = (Inl (Plain ''key name does not equal existing key name''), op2, heap2))
   \<and> (\<forall>e op1 heap1. OpenCollectionURL D op heap u = (Inl e, op1, heap1) \<longrightarrow>
        (\<exists>m. e = Plain m) \<and> op1 = op \<and> heap1 = heap)"
proof (intro conjI allI impI)
  assume "Query u \<noteq> [] \<or> Host u = [] \<or> keyNameOf u = [] \<or> CHR ''/'' \<in> set (keyNameOf u)"
  then have "\<not> validURL u" by (auto simp: validURL_def)
  then show "\<exists>m. OpenCollectionURL D op heap u = (Inl (Plain m), op, heap)" by (rule open_invalid)
next
  fix p op1 heap1 us op2 heap2
  assume h: "OpenCollectionURL D op heap u = (Inr p, op1, heap1) \<and> openAll D op1 heap1 us = (op2, heap2)"
  from open_Inr [of D op heap u p op1 heap1] h
  have v: "validURL u" and r: "collections op1 (Host u) = Some \<lparr>keyName = keyNameOf u, coll = p\<rparr>"
    by auto
  from openAll_keeps [OF r, of D heap1 us op2 heap2] h
  have "collections op2 (Host u) = Some \<lparr>keyName = keyNameOf u, coll = p\<rparr>" by simp
  from open_known [OF v this, of D heap2]
  show "OpenCollectionURL D op2 heap2 u = (Inr p, op2, heap2)" by simp
next
  fix p op1 heap1 us op2 heap2 u'
  assume h: "OpenCollectionURL D op heap u = (Inr p, op1, heap1) \<and> openAll D op1 heap1 us = (op2, heap2)
        \<and> Host u' = Host u \<and> Query u' = [] \<and> keyNameOf u' \<noteq> [] \<and> CHR ''/'' \<notin> set (keyNameOf u')
        \<and> keyNameOf u' \<noteq> keyNameOf u"
  from open_Inr [of D op heap u p op1 heap1] h
  have v: "validURL u" and r: "collections op1 (Host u) = Some \<lparr>keyName = keyNameOf u, coll = p\<rparr>"
    by auto
  from openAll_keeps [OF r, of D heap1 us op2 heap2] h
  have k: "collections op2 (Host u') = Some \<lparr>keyName = keyNameOf u, coll = p\<rparr>" by simp
  from h v have v': "validURL u'" by (simp add: validURL_def)
  from open_known [OF v' k, of D heap2] h
  show "OpenCollectionURL D op2 heap2 u'
          = (Inl (Plain ''key name does not equal existing key name''), op2, heap2)"
    by auto
next
  fix e op1 heap1
  assume h: "OpenCollectionURL D op heap u = (Inl e, op1, heap1)"
  have "(\<exists>m. e = Plain m) \<and> op1 = op \<and> heap1 = heap"
  proof (cases "validURL u")
    case False
    from open_invalid [OF this, of D op heap] h show ?thesis by auto
  next
    case True
    show ?thesis
    proof (cases "collections op (Host u)")
      case None
      with open_new [OF True None, of D heap] h show ?thesis by auto
    next
      case (Some x)
      from open_known [OF True Some, of D heap] h show ?thesis by (auto split: if_splits)
    qed
  qed
  then show "\<exists>m. e = Plain m" "op1 = op" "heap1 = heap" by auto
qed

text \<open>The definitions that the closed examples of the opener unfold.\<close>

lemmas url_defs = OpenCollectionURL_def OpenCollection_def newCollection_def keyNameOf_def
  opener0_def heap0_def url_def Let_def

text \<open>
  Claim C9 as stated fails: after \<^verbatim>\<open>mem://c/id\<close>, opening \<^verbatim>\<open>mem://c/other\<close> fails
  with an error made by \<^verbatim>\<open>fmt.Errorf\<close>, not with \<open>InvalidArgument\<close>.
\<close>

theorem url_reopen_mismatch_not_InvalidArgument:
  "fst (OpenCollectionURL ''DocstoreRevision''
         (fst (openAll ''DocstoreRevision'' opener0 heap0 [url ''c'' ''/id'']))
         (snd (openAll ''DocstoreRevision'' opener0 heap0 [url ''c'' ''/id'']))
         (url ''c'' ''/other''))
     = Inl (Plain ''key name does not equal existing key name'')
   \<and> fst (OpenCollectionURL ''DocstoreRevision''
         (fst (openAll ''DocstoreRevision'' opener0 heap0 [url ''c'' ''/id'']))
         (snd (openAll ''DocstoreRevision'' opener0 heap0 [url ''c'' ''/id'']))
         (url ''c'' ''/other''))
     \<noteq> Inl (Gcerr InvalidArgument)"
  by (simp add: url_defs)

text \<open>
  The first open of \<^verbatim>\<open>mem://c/id\<close> makes collection 0; after \<^verbatim>\<open>mem://d/id\<close> was
  opened too, \<^verbatim>\<open>mem://c/id\<close> is collection 0 again. Four URLs that fail.
\<close>

theorem url_reopen_witness:
  "fst (OpenCollectionURL ''DocstoreRevision'' opener0 heap0 (url ''c'' ''/id'')) = Inr 0
   \<and> fst (OpenCollectionURL ''DocstoreRevision''
         (fst (openAll ''DocstoreRevision'' opener0 heap0 [url ''c'' ''/id'', url ''d'' ''/id'']))
         (snd (openAll ''DocstoreRevision'' opener0 heap0 [url ''c'' ''/id'', url ''d'' ''/id'']))
         (url ''c'' ''id'')) = Inr 0
   \<and> fst (OpenCollectionURL ''DocstoreRevision'' opener0 heap0 (url [] ''/id''))
       = Inl (Plain ''empty collection name'')
   \<and> fst (OpenCollectionURL ''DocstoreRevision'' opener0 heap0 (url ''c'' ''/a/b''))
       = Inl (Plain ''invalid key name (must be non-empty and have no slashes)'')
   \<and> fst (OpenCollectionURL ''DocstoreRevision'' opener0 heap0 (url ''c'' ''/''))
       = Inl (Plain ''invalid key name (must be non-empty and have no slashes)'')
   \<and> fst (OpenCollectionURL ''DocstoreRevision'' opener0 heap0
           ((url ''c'' ''/id'')\<lparr>Query := [(''x'', [''1''])]\<rparr>))
       = Inl (Plain ''invalid query parameter'')"
  using
    url_reopen [where D = "''DocstoreRevision''" and op = opener0 and heap = heap0
      and u = "url ''c'' ''/id''"]
    url_reopen [where D = "''DocstoreRevision''" and op = opener0 and heap = heap0
      and u = "url [] ''/id''"]
  by (simp add: url_defs)

subsection \<open>Revisions\<close>

lemma mapIndex_update_same: "mapIndex (AList.update k v m) k = v"
  by (simp add: mapIndex_def AList.update_conv')

lemma changeRevision_eq:
  "changeRevision c doc =
     (c\<lparr>curRevision := curRevision c + 1\<rparr>,
      AList.update (RevisionField (opts c)) (VInt (curRevision c + 1)) doc)"
  by (simp add: changeRevision_def Let_def)

lemma update_result:
  assumes "update E c doc mods = (r, doc', c', ms)"
  shows "r = Ok () \<longrightarrow> c' = c\<lparr>curRevision := curRevision c + 1\<rparr>
           \<and> mapIndex doc' (RevisionField (opts c)) = VInt (curRevision c + 1)"
    and "r \<noteq> Ok () \<longrightarrow> c' = c"
  using assms
  by (auto simp: update_def changeRevision_eq mapIndex_update_same
      split: if_splits prod.splits res.splits)

lemma putDoc_result:
  assumes "putDoc E c a cur = (r, c', a')"
  shows "r = Ok () \<longrightarrow> Key a' = Key a
           \<and> c' = c\<lparr>curRevision := curRevision c + 1,
                    docs := (docs c)(Key a \<mapsto> the (docs c' (Key a)))\<rparr>
           \<and> (\<exists>d. docs c' (Key a) = Some d
                \<and> mapIndex d (RevisionField (opts c)) = VInt (curRevision c + 1))"
    and "r \<noteq> Ok () \<longrightarrow> c' = c \<and> a' = a"
  using assms
  by (auto simp: putDoc_def changeRevision_eq mapIndex_update_same
      split: if_splits prod.splits res.splits sum.splits)


lemma runLocked_write:
  assumes "runLocked E u c a = (Ok (), c', a')" and "isWrite (Kind a)"
  shows "opts c' = opts c \<and> curRevision c' = curRevision c + 1
     \<and> (\<exists>d. docs c' = (docs c)(Key a' \<mapsto> d)
           \<and> mapIndex d (RevisionField (opts c)) = VInt (curRevision c + 1))"
proof -
  have put: ?thesis if "putDoc E c b cur = (Ok (), c', a')" for b cur
  proof -
    from putDoc_result(1) [OF that] obtain d where
      "Key a' = Key b" "c' = c\<lparr>curRevision := curRevision c + 1,
                    docs := (docs c)(Key b \<mapsto> the (docs c' (Key b)))\<rparr>"
      "docs c' (Key b) = Some d" "mapIndex d (RevisionField (opts c)) = VInt (curRevision c + 1)"
      by auto
    then show ?thesis
      by (metis collection.select_convs(3,4,5) collection.surjective collection.update_convs(4,5) option.sel)
  qed
  from assms(2) consider "Kind a = Create" | "Kind a = Put" | "Kind a = Replace" | "Kind a = Update"
    by (auto simp: isWrite_def)
  then show ?thesis
  proof cases
    case 1
    with assms(1) have "\<exists>b cur. putDoc E c b cur = (Ok (), c', a')"
      by (auto simp: runLocked_Create split: if_splits sum.splits)
    with put show ?thesis by blast
  next
    case 2
    with assms(1) have "\<exists>b cur. putDoc E c b cur = (Ok (), c', a')"
      by (auto simp: runLocked_putDoc)
    with put show ?thesis by blast
  next
    case 3
    show ?thesis
    proof (cases "currentDoc c a")
      case None
      with 3 assms(1) show ?thesis by (simp add: runLocked_NotFound)
    next
      case (Some cur)
      with 3 assms(1) have "\<exists>b cur. putDoc E c b cur = (Ok (), c', a')"
        by (auto simp: runLocked_putDoc)
      with put show ?thesis by blast
    qed
  next
    case 4
    show ?thesis
    proof (cases "currentDoc c a")
      case None
      with 4 assms(1) show ?thesis by (simp add: runLocked_NotFound)
    next
      case (Some cur)
      obtain r d c1 ms where up: "update E c cur (Mods a) = (r, d, c1, ms)"
        by (cases "update E c cur (Mods a)")
      from 4 Some assms(1) up have r: "r = Ok ()"
        by (cases r) (auto simp: runLocked_Update split: res.splits)
      from update_result(1) [OF up] r have c1: "c1 = c\<lparr>curRevision := curRevision c + 1\<rparr>"
        and d: "mapIndex d (RevisionField (opts c)) = VInt (curRevision c + 1)" by auto
      from 4 Some assms(1) up r have "c' = c1\<lparr>docs := (docs c1)(Key a \<mapsto> d)\<rparr>" "Key a' = Key a"
        by (auto simp: runLocked_Update split: res.splits)
      with c1 d show ?thesis by auto
    qed
  qed
qed

lemma runLocked_nonwrite:
  assumes "runLocked E u c a = (r, c', a')" and "r \<noteq> Panic"
    and "\<not> (r = Ok () \<and> isWrite (Kind a))"
  shows "opts c' = opts c \<and> curRevision c' = curRevision c
     \<and> (docs c' = docs c \<or> docs c' = (docs c)(Key a := None))"
proof -
  have put: "c' = c" if "putDoc E c b cur = (r, c', a')" "r \<noteq> Ok ()" for b cur
    using putDoc_result(2) [OF that(1)] that(2) by simp
  show ?thesis
  proof (cases "Kind a")
    case Create
    with assms have "r \<noteq> Ok ()" by (simp add: isWrite_def)
    with Create assms(1) have "c' = c"
      by (auto simp: runLocked_Create split: if_splits sum.splits dest: put)
    then show ?thesis by simp
  next
    case Put
    with assms have "r \<noteq> Ok ()" by (simp add: isWrite_def)
    with Put assms(1) have "c' = c" by (auto simp: runLocked_putDoc dest: put)
    then show ?thesis by simp
  next
    case Replace
    with assms have r: "r \<noteq> Ok ()" by (simp add: isWrite_def)
    have "c' = c"
    proof (cases "currentDoc c a")
      case None
      with Replace assms(1) show ?thesis by (simp add: runLocked_NotFound)
    next
      case (Some cur)
      with Replace assms(1) r show ?thesis by (auto simp: runLocked_putDoc dest: put)
    qed
    then show ?thesis by simp
  next
    case Update
    with assms have "r \<noteq> Ok ()" by (simp add: isWrite_def)
    with assms(2) obtain e where "r = Fail e" by (cases r) auto
    with Update assms(1) runLocked_Update_Fail [of a E u c e c' a'] show ?thesis by simp
  next
    case Get
    with assms(1) have "c' = c"
      by (auto simp: runLocked_Get split: option.splits prod.splits)
    then show ?thesis by simp
  next
    case Delete
    with assms(1,2) have "c' = c \<or> c' = c\<lparr>docs := (docs c)(Key a := None)\<rparr>"
      by (auto simp: runLocked_Delete split: res.splits)
    then show ?thesis by auto
  next
    case (OtherKind n)
    with assms(1) have "c' = c" by (simp add: runLocked_OtherKind)
    then show ?thesis by simp
  qed
qed

lemma runAction_write:
  assumes "runAction E ctxErr u c a = (Ok (), c', a')" and "isWrite (Kind a)"
  shows "opts c' = opts c \<and> curRevision c' = curRevision c + 1
     \<and> (\<exists>d. docs c' = (docs c)(Key a' \<mapsto> d)
           \<and> mapIndex d (RevisionField (opts c)) = VInt (curRevision c + 1))"
  using assms runLocked_write [of E u c a c' a']
  by (cases ctxErr) (simp_all add: runAction_def)

lemma runAction_nonwrite:
  assumes "runAction E ctxErr u c a = (r, c', a')" and "r \<noteq> Panic"
    and "\<not> (r = Ok () \<and> isWrite (Kind a))"
  shows "opts c' = opts c \<and> curRevision c' = curRevision c
     \<and> (docs c' = docs c \<or> docs c' = (docs c)(Key a := None))"
proof (cases ctxErr)
  case None
  with assms runLocked_nonwrite [of E u c a r c' a'] show ?thesis by (simp add: runAction_def)
next
  case (Some e)
  with assms show ?thesis by (simp add: runAction_def)
qed


lemma stampedUpTo_mono: "stampedUpTo c n \<Longrightarrow> n \<le> n' \<Longrightarrow> stampedUpTo c n'"
  unfolding stampedUpTo_def by (meson le_trans)

lemma stamped_step:
  assumes "runAction E ctxErr u c a = (r, c', a')" and "r \<noteq> Panic"
    and "curRevision c = of_nat n" and "stampedUpTo c n"
  shows "curRevision c' = of_nat (n + (if r = Ok () \<and> isWrite (Kind a) then 1 else 0))
     \<and> stampedUpTo c' (n + (if r = Ok () \<and> isWrite (Kind a) then 1 else 0))
     \<and> opts c' = opts c"
proof (cases "r = Ok () \<and> isWrite (Kind a)")
  case True
  with assms(1) runAction_write [of E ctxErr u c a c' a'] obtain d where
    o: "opts c' = opts c" and cr: "curRevision c' = curRevision c + 1"
    and dc: "docs c' = (docs c)(Key a' \<mapsto> d)"
    and rv: "mapIndex d (RevisionField (opts c)) = VInt (curRevision c + 1)"
    by auto
  from cr assms(3) have cr': "curRevision c' = of_nat (Suc n)" by simp
  have "stampedUpTo c' (Suc n)"
    unfolding stampedUpTo_def
  proof (intro allI impI)
    fix k x
    assume kx: "docs c' k = Some x"
    show "\<exists>m. 0 < m \<and> m \<le> Suc n \<and> mapIndex x (RevisionField (opts c')) = VInt (of_nat m)"
    proof (cases "k = Key a'")
      case True
      with kx dc have "x = d" by simp
      with rv o assms(3) have "mapIndex x (RevisionField (opts c')) = VInt (of_nat (Suc n))"
        by simp
      then show ?thesis by blast
    next
      case False
      with kx dc have "docs c k = Some x" by simp
      with assms(4) o obtain m where "0 < m" "m \<le> n"
        "mapIndex x (RevisionField (opts c')) = VInt (of_nat m)"
        unfolding stampedUpTo_def by force
      then show ?thesis by (meson le_SucI)
    qed
  qed
  with True cr' o show ?thesis by simp
next
  case False
  with assms(1,2) runAction_nonwrite [of E ctxErr u c a r c' a'] have
    o: "opts c' = opts c" and cr: "curRevision c' = curRevision c"
    and dc: "docs c' = docs c \<or> docs c' = (docs c)(Key a := None)"
    by auto
  have "stampedUpTo c' n"
    unfolding stampedUpTo_def
  proof (intro allI impI)
    fix k x
    assume kx: "docs c' k = Some x"
    with dc have "docs c k = Some x" by (auto split: if_splits)
    with assms(4) o show "\<exists>m. 0 < m \<and> m \<le> n \<and> mapIndex x (RevisionField (opts c')) = VInt (of_nat m)"
      unfolding stampedUpTo_def by force
  qed
  with False cr o assms(3) show ?thesis by simp
qed

lemma stamped_runSeq:
  "runSeq E c steps = Some c' \<Longrightarrow> curRevision c = of_nat n \<Longrightarrow> stampedUpTo c n \<Longrightarrow>
     curRevision c' = of_nat (n + countWrites E c steps)
     \<and> stampedUpTo c' (n + countWrites E c steps) \<and> opts c' = opts c"
proof (induction steps arbitrary: c n)
  case Nil
  then show ?case by simp
next
  case (Cons st steps)
  obtain ctxErr u a where st: "st = (ctxErr, u, a)" by (cases st)
  obtain r c1 a1 where ra: "runAction E ctxErr u c a = (r, c1, a1)"
    by (cases "runAction E ctxErr u c a")
  from Cons.prems(1) st ra have np: "r \<noteq> Panic" and rs: "runSeq E c1 steps = Some c'"
    by (cases r; simp)+
  define w where "w = (if r = Ok () \<and> isWrite (Kind a) then 1 else 0 :: nat)"
  from stamped_step [OF ra np Cons.prems(2,3)]
  have 1: "curRevision c1 = of_nat (n + w)" "stampedUpTo c1 (n + w)" "opts c1 = opts c"
    by (simp_all add: w_def)
  from Cons.IH [OF rs 1(1,2)]
  have 2: "curRevision c' = of_nat (n + w + countWrites E c1 steps)"
    "stampedUpTo c' (n + w + countWrites E c1 steps)" "opts c' = opts c1" by simp_all
  have "countWrites E c (st # steps) = w + countWrites E c1 steps"
    using st ra np by (cases r) (auto simp: w_def)
  with 1 2 show ?case by (simp add: add.assoc)
qed

lemma countWrites_append:
  "runSeq E c s1 = Some c1 \<Longrightarrow>
     countWrites E c (s1 @ s2) = countWrites E c s1 + countWrites E c1 s2"
proof (induction s1 arbitrary: c)
  case Nil
  then show ?case by simp
next
  case (Cons st s1)
  obtain ctxErr u a where st: "st = (ctxErr, u, a)" by (cases st)
  obtain r c' a' where ra: "runAction E ctxErr u c a = (r, c', a')"
    by (cases "runAction E ctxErr u c a")
  from Cons.prems st ra have "r \<noteq> Panic" and "runSeq E c' s1 = Some c1"
    by (cases r; simp)+
  with Cons.IH [of c'] st ra show ?case by (cases r) simp_all
qed

lemma newCollection_fresh:
  "newCollection D kf kfun os = Inr c0 \<Longrightarrow> curRevision c0 = 0 \<and> docs c0 = Map.empty"
  by (auto simp: newCollection_def Let_def split: if_splits)

lemma sint_of_nat_small: "n < 2 ^ 63 \<Longrightarrow> sint (of_nat n :: int64) = int n"
proof -
  assume "n < 2 ^ 63"
  then have "int n < 2 ^ 63" by (metis of_nat_less_iff of_nat_numeral of_nat_power)
  then show ?thesis
    by (simp add: signed_of_nat signed_take_bit_int_eq_self)
qed


text \<open>
  Claim C2, amended by a bound: the counter is an \<^verbatim>\<open>int64\<close> and wraps around, so
  the statements about sign and order hold while fewer than \<open>2 ^ 63 - 1\<close> writes
  have succeeded. For a collection made by \<open>newCollection\<close> and any sequence of actions
  run on it without a panic: the counter starts at zero and is the number of
  successful writes; every stored document holds in its revision field an
  \<^verbatim>\<open>int64\<close> that is not zero, is positive and is at most the counter. A next write
  (Create, Put, Replace or Update) that succeeds adds one to the counter, stores under
  its key a document with exactly that revision and touches no other key; the first
  revision is one; the new revision is greater than the revision stored under the key
  before and than the revision of every successful write earlier in the sequence. An
  action that is not a successful write leaves the counter, and leaves every stored
  document as it is or removes it.
\<close>

theorem revision_invariant:
  assumes new: "newCollection D kf kfun os = Inr c0"
    and run: "runSeq E c0 steps = Some c"
    and bound: "countWrites E c0 steps < 2 ^ 63 - 1"
  shows
    "curRevision c0 = 0
     \<and> curRevision c = of_nat (countWrites E c0 steps)
     \<and> (\<forall>k d. docs c k = Some d \<longrightarrow>
          (\<exists>r. mapIndex d (RevisionField (opts c)) = VInt r \<and> r \<noteq> 0
                \<and> 0 < sint r \<and> sint r \<le> sint (curRevision c)))
     \<and> (\<forall>ctxErr u a c' a'.
          runAction E ctxErr u c a = (Ok (), c', a') \<and> isWrite (Kind a) \<longrightarrow>
            curRevision c' = curRevision c + 1
            \<and> storedRevision c' (Key a') = VInt (curRevision c')
            \<and> (\<forall>k. k \<noteq> Key a' \<longrightarrow> docs c' k = docs c k)
            \<and> (steps = [] \<longrightarrow> storedRevision c' (Key a') = VInt 1)
            \<and> (\<forall>r. storedRevision c (Key a') = VInt r \<longrightarrow> sint r < sint (curRevision c'))
            \<and> (\<forall>s1 ctx1 u1 a1 s2 c1 c1' a1'.
                  steps = s1 @ (ctx1, u1, a1) # s2 \<and> runSeq E c0 s1 = Some c1
                  \<and> runAction E ctx1 u1 c1 a1 = (Ok (), c1', a1') \<and> isWrite (Kind a1) \<longrightarrow>
                  sint (curRevision c1') < sint (curRevision c')))
     \<and> (\<forall>ctxErr u a r c' a'.
          runAction E ctxErr u c a = (r, c', a') \<and> r \<noteq> Panic
          \<and> \<not> (r = Ok () \<and> isWrite (Kind a)) \<longrightarrow>
            curRevision c' = curRevision c \<and> (\<forall>k. docs c' k = docs c k \<or> docs c' k = None))"
proof -
  define N where "N = countWrites E c0 steps"
  from bound have N: "Suc N < 2 ^ 63" by (simp add: N_def)
  from newCollection_fresh [OF new] have c0: "curRevision c0 = 0" "docs c0 = Map.empty" by auto
  then have s0: "stampedUpTo c0 0" by (simp add: stampedUpTo_def)
  from c0 have "curRevision c0 = of_nat 0" by simp
  from stamped_runSeq [OF run this s0]
  have cur: "curRevision c = of_nat N" and st: "stampedUpTo c N" and oc: "opts c = opts c0"
    by (simp_all add: N_def)
  have sN: "sint (curRevision c) = int N"
    using cur N by (simp add: sint_of_nat_small)
  have stored: "\<exists>m. 0 < m \<and> m \<le> N \<and> r = of_nat m \<and> sint r = int m"
    if "docs c k = Some d" "mapIndex d (RevisionField (opts c)) = VInt r" for k d r
  proof -
    from st that obtain m where m: "0 < m" "m \<le> N" "r = of_nat m"
      unfolding stampedUpTo_def by force
    with N have "sint r = int m" by (simp add: sint_of_nat_small)
    with m show ?thesis by blast
  qed
  have 3: "\<exists>r. mapIndex d (RevisionField (opts c)) = VInt r \<and> r \<noteq> 0
                \<and> 0 < sint r \<and> sint r \<le> sint (curRevision c)"
    if "docs c k = Some d" for k d
  proof -
    from st that obtain m where "mapIndex d (RevisionField (opts c)) = VInt (of_nat m)"
      unfolding stampedUpTo_def by blast
    moreover from stored [OF that this] sN
    have "0 < sint (of_nat m :: int64)" "sint (of_nat m :: int64) \<le> sint (curRevision c)"
      "(of_nat m :: int64) \<noteq> 0"
      by auto
    ultimately show ?thesis by blast
  qed
  have 4: "curRevision c' = curRevision c + 1
            \<and> storedRevision c' (Key a') = VInt (curRevision c')
            \<and> (\<forall>k. k \<noteq> Key a' \<longrightarrow> docs c' k = docs c k)
            \<and> (steps = [] \<longrightarrow> storedRevision c' (Key a') = VInt 1)
            \<and> (\<forall>r. storedRevision c (Key a') = VInt r \<longrightarrow> sint r < sint (curRevision c'))
            \<and> (\<forall>s1 ctx1 u1 a1 s2 c1 c1' a1'.
                  steps = s1 @ (ctx1, u1, a1) # s2 \<and> runSeq E c0 s1 = Some c1
                  \<and> runAction E ctx1 u1 c1 a1 = (Ok (), c1', a1') \<and> isWrite (Kind a1) \<longrightarrow>
                  sint (curRevision c1') < sint (curRevision c'))"
    if w: "runAction E ctxErr u c a = (Ok (), c', a')" "isWrite (Kind a)" for ctxErr u a c' a'
  proof -
    from runAction_write [OF w] obtain d where
      o: "opts c' = opts c" and cr: "curRevision c' = curRevision c + 1"
      and dc: "docs c' = (docs c)(Key a' \<mapsto> d)"
      and rv: "mapIndex d (RevisionField (opts c)) = VInt (curRevision c + 1)"
      by auto
    from cr cur have cr': "curRevision c' = of_nat (Suc N)" by simp
    with N have sN': "sint (curRevision c') = int (Suc N)"
      by (simp only: sint_of_nat_small)
    from dc rv o cr have sr: "storedRevision c' (Key a') = VInt (curRevision c')"
      by (simp add: storedRevision_def)
    from dc have fr: "\<forall>k. k \<noteq> Key a' \<longrightarrow> docs c' k = docs c k" by simp
    have one: "storedRevision c' (Key a') = VInt 1" if "steps = []"
      using that run c0 sr cr by simp
    have old: "sint r < sint (curRevision c')" if "storedRevision c (Key a') = VInt r" for r
    proof -
      from that obtain d0 where "docs c (Key a') = Some d0"
        "mapIndex d0 (RevisionField (opts c)) = VInt r"
        by (auto simp: storedRevision_def split: option.splits)
      from stored [OF this] sN' show ?thesis by auto
    qed
    have w1: "sint (curRevision c1') < sint (curRevision c')"
      if h: "steps = s1 @ (ctx1, u1, a1) # s2" "runSeq E c0 s1 = Some c1"
        "runAction E ctx1 u1 c1 a1 = (Ok (), c1', a1')" "isWrite (Kind a1)"
      for s1 ctx1 u1 a1 s2 c1 c1' a1'
    proof -
      define n1 where "n1 = countWrites E c0 s1"
      from \<open>curRevision c0 = of_nat 0\<close> stamped_runSeq [OF h(2) _ s0]
      have "curRevision c1 = of_nat n1" by (simp add: n1_def)
      with runAction_write [OF h(3,4)] have c1': "curRevision c1' = of_nat (Suc n1)" by simp
      from countWrites_append [OF h(2), of "(ctx1, u1, a1) # s2"] h(1,3,4)
      have "N = n1 + (1 + countWrites E c1' s2)" by (simp add: N_def n1_def)
      then have le: "Suc n1 \<le> N" by simp
      with N have "Suc n1 < 2 ^ 63" by simp
      with c1' have "sint (curRevision c1') = int (Suc n1)" by (simp only: sint_of_nat_small)
      with sN' le show ?thesis by simp
    qed
    from cr sr fr one old w1 show ?thesis by blast
  qed
  have 5: "curRevision c' = curRevision c \<and> (\<forall>k. docs c' k = docs c k \<or> docs c' k = None)"
    if "runAction E ctxErr u c a = (r, c', a') \<and> r \<noteq> Panic
          \<and> \<not> (r = Ok () \<and> isWrite (Kind a))" for ctxErr u a r c' a'
    using runAction_nonwrite [of E ctxErr u c a r c' a'] that by (auto split: if_splits)
  from c0(1) cur 3 4 5 show ?thesis unfolding N_def by blast
qed


text \<open>
  Repeated Puts of a document without a revision: the \<open>n\<close>-th stores revision \<open>n\<close>,
  as an \<^verbatim>\<open>int64\<close>.
\<close>

lemma put_step:
  "runAction docmapEnv None [] (collAfterPuts n) putK0 =
     (Ok (), collAfterPuts (Suc n),
      act Put (Enc (VString ''k''))
        [(''name'', VString ''k''), (''DocstoreRevision'', VInt (of_nat (Suc n)))])"
  by (simp add: collAfterPuts_def runAction_def runLocked_putDoc putK0_def act_def currentDoc_def
      putDoc_def checkRevision_def docmapEnv_def coll0_def mapIndex_def changeRevision_def Let_def
      add.commute)

lemma puts_run:
  "runSeq docmapEnv (collAfterPuts n) (repeatPut m) = Some (collAfterPuts (n + m))
   \<and> countWrites docmapEnv (collAfterPuts n) (repeatPut m) = m"
proof (induction m arbitrary: n)
  case 0
  then show ?case by (simp add: repeatPut_def)
next
  case (Suc m)
  have "repeatPut (Suc m) = (None, [], putK0) # repeatPut m" by (simp add: repeatPut_def)
  moreover have "isWrite (Kind putK0)" by (simp add: isWrite_def putK0_def act_def)
  ultimately show ?case using Suc [of "Suc n"] by (simp add: put_step)
qed

lemma collAfterPuts_0: "collAfterPuts 0 = coll0"
  by (simp add: collAfterPuts_def coll0_def)

lemma revisionAfter_puts:
  "0 < m \<Longrightarrow> revisionAfter docmapEnv coll0 (repeatPut m) (Enc (VString ''k'')) = Some (VInt (of_nat m))"
  using puts_run [of 0 m]
  by (simp add: collAfterPuts_0 revisionAfter_def storedRevision_def collAfterPuts_def coll0_def
      mapIndex_def)

text \<open>
  Claim C2 as stated fails at the wrap-around of the counter: after \<open>2 ^ 63 - 1\<close>
  successful Puts of the key \<^verbatim>\<open>k\<close> its revision is the greatest \<^verbatim>\<open>int64\<close>; the
  next Put, which succeeds too, stores the least \<^verbatim>\<open>int64\<close>, which is smaller.
\<close>

theorem revision_wraps_counterexample:
  "revisionAfter docmapEnv coll0 (repeatPut (2 ^ 63 - 1)) (Enc (VString ''k''))
     = Some (VInt 9223372036854775807)
   \<and> revisionAfter docmapEnv coll0 (repeatPut (2 ^ 63)) (Enc (VString ''k''))
     = Some (VInt (- 9223372036854775808))
   \<and> countWrites docmapEnv coll0 (repeatPut (2 ^ 63)) = 2 ^ 63
   \<and> sint (- 9223372036854775808 :: int64) < sint (9223372036854775807 :: int64)"
proof -
  have 1: "revisionAfter docmapEnv coll0 (repeatPut (2 ^ 63 - 1)) (Enc (VString ''k''))
     = Some (VInt 9223372036854775807)"
    by (subst revisionAfter_puts) simp_all
  have 2: "revisionAfter docmapEnv coll0 (repeatPut (2 ^ 63)) (Enc (VString ''k''))
     = Some (VInt (- 9223372036854775808))"
    by (subst revisionAfter_puts) simp_all
  have 3: "countWrites docmapEnv coll0 (repeatPut (2 ^ 63)) = 2 ^ 63"
    using puts_run [of 0 "2 ^ 63"] by (simp only: collAfterPuts_0)
  have 4: "sint (- 9223372036854775808 :: int64) < sint (9223372036854775807 :: int64)"
    by simp
  from 1 2 3 4 show ?thesis by blast
qed


text \<open>The definitions that the closed example of a sequence unfolds.\<close>

lemmas eval_defs3 = eval_defs newCollection_def isWrite_def storedRevision_def

text \<open>
  A Put and an Update on the new collection: the counter is 2 and so is the stored
  revision; one more Put stores revision 3.
\<close>

theorem revision_invariant_witness:
  "newCollection ''DocstoreRevision'' ''name'' None None = Inr coll0
   \<and> runSeq docmapEnv coll0
        [(None, [], putK0), (None, [], updateK [\<lparr>FieldPath = [''a''], Value = Enc (VInt 5)\<rparr>])]
       = Some (coll0\<lparr>docs := [Enc (VString ''k'') \<mapsto>
                  [(''name'', VString ''k''), (''DocstoreRevision'', VInt 2), (''a'', VInt 5)]],
                curRevision := 2\<rparr>)
   \<and> countWrites docmapEnv coll0
        [(None, [], putK0), (None, [], updateK [\<lparr>FieldPath = [''a''], Value = Enc (VInt 5)\<rparr>])]
       = 2
   \<and> (2 :: nat) < 2 ^ 63 - 1
   \<and> storedRevision (coll0\<lparr>docs := [Enc (VString ''k'') \<mapsto>
                  [(''name'', VString ''k''), (''DocstoreRevision'', VInt 2), (''a'', VInt 5)]],
                curRevision := 2\<rparr>) (Enc (VString ''k'')) = VInt 2
   \<and> storedRevision (fst (snd (runAction docmapEnv None []
          (coll0\<lparr>docs := [Enc (VString ''k'') \<mapsto>
                  [(''name'', VString ''k''), (''DocstoreRevision'', VInt 2), (''a'', VInt 5)]],
                curRevision := 2\<rparr>) putK0))) (Enc (VString ''k'')) = VInt 3"
  using revision_invariant [where D = "''DocstoreRevision''" and kf = "''name''" and kfun = None
      and os = None and ?c0.0 = coll0 and E = docmapEnv
      and steps = "[(None, [], putK0), (None, [], updateK [\<lparr>FieldPath = [''a''], Value = Enc (VInt 5)\<rparr>])]"
      and c = "coll0\<lparr>docs := [Enc (VString ''k'') \<mapsto>
                  [(''name'', VString ''k''), (''DocstoreRevision'', VInt 2), (''a'', VInt 5)]],
                curRevision := 2\<rparr>"]
  by (simp add: eval_defs3)

end
